theory Spec2Isabelle
  imports Main "HOL-Library.Sublist"
begin

section \<open>Python values\<close>

text \<open>
  The script \<^verbatim>\<open>mailman_rss.py\<close> is modelled as run by Python 3 (the branch taken when the
  mailbox has \<^verbatim>\<open>get_bytes\<close>). A \<^typ>\<open>string\<close> is a Python \<^verbatim>\<open>str\<close> whose code points are
  below 256, one \<^typ>\<open>char\<close> per code point. Every exception the script can raise is a value
  of \<open>error\<close>; the script catches none of them (only \<^verbatim>\<open>KeyboardInterrupt\<close>, at top level).
\<close>

datatype error =
    IndexError | AttributeError | TypeError | ValueError
  | URLError | GzipError | MailboxError | UnicodeDecodeError | HeaderParseError

abbreviation NL :: char where "NL \<equiv> CHR 0x0A"
abbreviation DQUOTE :: char where "DQUOTE \<equiv> CHR 0x22"

subsection \<open>Character classes of \<^verbatim>\<open>str\<close> and \<^verbatim>\<open>re\<close>\<close>

definition isspace :: "char \<Rightarrow> bool" where
  \<comment> \<open>\<^verbatim>\<open>str.isspace\<close>, the class \<^verbatim>\<open>\s\<close> and the default set of \<^verbatim>\<open>str.strip\<close>\<close>
  "isspace c = (let n = (of_char c :: nat) in
     (9 \<le> n \<and> n \<le> 13) \<or> (28 \<le> n \<and> n \<le> 32) \<or> n = 133 \<or> n = 160)"

definition isdecimal :: "char \<Rightarrow> bool" where
  \<comment> \<open>the class \<^verbatim>\<open>\d\<close>\<close>
  "isdecimal c = (let n = (of_char c :: nat) in 48 \<le> n \<and> n \<le> 57)"

definition isword :: "char \<Rightarrow> bool" where
  \<comment> \<open>the class \<^verbatim>\<open>\w\<close>: alphanumeric code points and the underscore\<close>
  "isword c = (let n = (of_char c :: nat) in
     (48 \<le> n \<and> n \<le> 57) \<or> (65 \<le> n \<and> n \<le> 90) \<or> n = 95 \<or> (97 \<le> n \<and> n \<le> 122) \<or>
     n = 170 \<or> n = 178 \<or> n = 179 \<or> n = 181 \<or> n = 185 \<or> n = 186 \<or>
     (188 \<le> n \<and> n \<le> 190) \<or> (192 \<le> n \<and> n \<le> 214) \<or> (216 \<le> n \<and> n \<le> 246) \<or>
     (248 \<le> n \<and> n \<le> 255))"

definition lower_char :: "char \<Rightarrow> char" where
  "lower_char c = (let n = (of_char c :: nat) in
     if (65 \<le> n \<and> n \<le> 90) \<or> (192 \<le> n \<and> n \<le> 222 \<and> n \<noteq> 215) then char_of (n + 32) else c)"

definition lower :: "string \<Rightarrow> string" where
  "lower s = map lower_char s"

subsection \<open>String methods\<close>

definition startswith :: "string \<Rightarrow> string \<Rightarrow> bool" where
  "startswith s p = prefix p s"

definition endswith :: "string \<Rightarrow> string \<Rightarrow> bool" where
  "endswith s p = suffix p s"

fun contains :: "string \<Rightarrow> string \<Rightarrow> bool" where
  \<comment> \<open>\<^verbatim>\<open>sub in s\<close>\<close>
  "contains [] sub = (sub = [])"
| "contains (c # cs) sub = (prefix sub (c # cs) \<or> contains cs sub)"

definition strip :: "string \<Rightarrow> string" where
  "strip s = rev (dropWhile isspace (rev (dropWhile isspace s)))"

definition strip_chars :: "string \<Rightarrow> string \<Rightarrow> string" where
  \<comment> \<open>\<^verbatim>\<open>s.strip(chars)\<close>\<close>
  "strip_chars s chars =
     rev (dropWhile (\<lambda>c. c \<in> set chars) (rev (dropWhile (\<lambda>c. c \<in> set chars) s)))"

function replace :: "string \<Rightarrow> string \<Rightarrow> string \<Rightarrow> string" where
  \<comment> \<open>\<^verbatim>\<open>s.replace(old, new)\<close>: leftmost occurrences, not overlapping\<close>
  "replace s old new =
     (if old = [] then new @ concat (map (\<lambda>c. c # new) s)
      else if s = [] then []
      else if prefix old s then new @ replace (drop (length old) s) old new
      else hd s # replace (tl s) old new)"
  by pat_completeness auto
termination
  by (relation "measure (\<lambda>(s, old, new). length s)") auto

declare replace.simps [simp del]

fun readlines :: "string \<Rightarrow> string list" where
  \<comment> \<open>\<^verbatim>\<open>io.StringIO(s).readlines()\<close>: lines end at a line feed, which they keep\<close>
  "readlines [] = []"
| "readlines (c # cs) =
     (if c = NL then [c] # readlines cs
      else (case readlines cs of [] \<Rightarrow> [[c]] | l # ls \<Rightarrow> (c # l) # ls))"

definition split1 :: "string \<Rightarrow> char \<Rightarrow> string list" where
  \<comment> \<open>\<^verbatim>\<open>s.split(sep, 1)\<close> for a separator of one character\<close>
  "split1 s sep =
     (case dropWhile (\<lambda>c. c \<noteq> sep) s of
        [] \<Rightarrow> [s]
      | _ # rest \<Rightarrow> [takeWhile (\<lambda>c. c \<noteq> sep) s, rest])"

subsection \<open>\<^verbatim>\<open>cgi.escape\<close>\<close>

definition cgi_escape :: "string \<Rightarrow> string" where
  \<comment> \<open>\<^verbatim>\<open>cgi.escape(s)\<close>; the script never passes \<^verbatim>\<open>quote\<close>, so the double quote stays\<close>
  "cgi_escape s = replace (replace (replace s ''&'' ''&amp;'') ''<'' ''&lt;'') ''>'' ''&gt;''"

subsection \<open>Integers and their text\<close>

definition digit_val :: "char \<Rightarrow> int" where
  "digit_val c = int (of_char c) - 48"

definition int_of_str :: "string \<Rightarrow> int" where
  \<comment> \<open>\<^verbatim>\<open>int(s)\<close> on a nonempty run of decimal digits, as captured by \<^verbatim>\<open>(\d+)\<close>\<close>
  "int_of_str s = foldl (\<lambda>a c. 10 * a + digit_val c) 0 s"

definition digit_char :: "nat \<Rightarrow> char" where
  "digit_char d = char_of (48 + d)"

fun str_nat :: "nat \<Rightarrow> string" where
  \<comment> \<open>\<^verbatim>\<open>str(n)\<close>: the decimal numeral of a natural number\<close>
  "str_nat n = (if n < 10 then [digit_char n] else str_nat (n div 10) @ [digit_char (n mod 10)])"

declare str_nat.simps [simp del]

definition format_06d :: "int \<Rightarrow> string" where
  \<comment> \<open>\<^verbatim>\<open>"{:06d}".format(n)\<close>: zero padded to six characters, the sign included\<close>
  "format_06d n =
     (if n < 0 then CHR ''-'' # replicate (5 - length (str_nat (nat (- n)))) CHR ''0'' @ str_nat (nat (- n))
      else replicate (6 - length (str_nat (nat n))) CHR ''0'' @ str_nat (nat n))"

section \<open>Messages, the archive and the libraries\<close>

text \<open>
  A message as \<^verbatim>\<open>printrss\<close> reads it: \<^verbatim>\<open>mail.get(name)\<close> for four headers (\<open>None\<close> when the
  header is missing) and the payload. The payload of a multipart message is a list of
  message objects, and \<^verbatim>\<open>get_payload(0)\<close> is then a message object, not text.
\<close>

datatype payload = Text string | Multipart

record mail =
  mail_date :: "string option"
  mail_from :: "string option"
  mail_subject :: "string option"
  mail_message_id :: "string option"
  mail_payload :: payload

text \<open>
  The nine-tuple of \<^verbatim>\<open>email.utils.parsedate\<close>; its last three entries are always
  \<open>0\<close>, \<open>1\<close> and \<open>-1\<close> and are left out.
\<close>

record struct_time =
  tm_year :: int
  tm_mon :: int
  tm_mday :: int
  tm_hour :: int
  tm_min :: int
  tm_sec :: int

text \<open>
  Library calls whose result the script only passes on are parameters:
  \<open>decode_header_str\<close> is \<^verbatim>\<open>str(make_header(decode_header(s)))\<close>, \<open>formatdate\<close> is the
  text \<^verbatim>\<open>formatdate()\<close> returns during the run, \<open>urlparse_netloc\<close> is
  \<^verbatim>\<open>urlparse(url).netloc\<close>.
\<close>

record lib =
  decode_header_str :: "string \<Rightarrow> error + string"
  parsedate :: "string \<Rightarrow> struct_time option"
  formatdate :: string
  urlparse_netloc :: "string \<Rightarrow> error + string"

definition month_names :: "string list" where
  "month_names = [''January'', ''February'', ''March'', ''April'', ''May'', ''June'', ''July'',
     ''August'', ''September'', ''October'', ''November'', ''December'']"

definition strftime_Y_B :: "struct_time \<Rightarrow> error + string" where
  \<comment> \<open>\<^verbatim>\<open>time.strftime("%Y-%B", t)\<close> in the C locale; month 0 and day 0 are read as 1\<close>
  "strftime_Y_B t =
     (if tm_mon t < 0 \<or> 12 < tm_mon t \<or> tm_mday t < 0 \<or> 31 < tm_mday t \<or>
         tm_hour t < 0 \<or> 23 < tm_hour t \<or> tm_min t < 0 \<or> 59 < tm_min t \<or>
         tm_sec t < 0 \<or> 61 < tm_sec t
      then Inl ValueError
      else Inr (str_nat (nat (tm_year t)) @ ''-'' @ month_names ! (nat (tm_mon t) - 1)))"

text \<open>The parsed index page, as far as \<^verbatim>\<open>get_title\<close> walks it: each step may find no tag.\<close>

datatype title_tag = Title (tag_string: "string option")
datatype head_tag = Head (head_title: "title_tag option")
datatype html_tag = Html (html_head: "head_tag option")

record soup =
  soup_html :: "html_tag option"

record archive =
  archive_url :: string
  archive_soup :: soup

definition get_title :: "archive \<Rightarrow> error + string option" where
  \<comment> \<open>\<^verbatim>\<open>self._soup.html.head.title.string\<close>: an attribute of \<open>None\<close> raises\<close>
  "get_title a =
     (case soup_html (archive_soup a) of
        None \<Rightarrow> Inl AttributeError
      | Some h \<Rightarrow>
          (case html_head h of
             None \<Rightarrow> Inl AttributeError
           | Some he \<Rightarrow>
               (case head_title he of
                  None \<Rightarrow> Inl AttributeError
                | Some t \<Rightarrow> Inr (tag_string t))))"

section \<open>Rendering\<close>

text \<open>
  What a piece of \<^verbatim>\<open>printrss\<close> does: the strings it prints, one per \<^verbatim>\<open>print\<close> call, and the
  exception that ended it, if any. What was printed before the exception stays printed.
\<close>

type_synonym printed = "string list \<times> error option"

definition andthen :: "printed \<Rightarrow> printed \<Rightarrow> printed" where
  "andthen p q = (case snd p of None \<Rightarrow> (fst p @ fst q, snd q) | Some e \<Rightarrow> p)"

definition truthy :: "string option \<Rightarrow> bool" where
  \<comment> \<open>\<^verbatim>\<open>if v:\<close> on a value that is \<open>None\<close> or a string\<close>
  "truthy v = (case v of None \<Rightarrow> False | Some s \<Rightarrow> s \<noteq> [])"

subsection \<open>\<^verbatim>\<open>get_part_field\<close>\<close>

fun scan_lines :: "string list \<Rightarrow> string \<Rightarrow> error + string option" where
  "scan_lines [] name = Inr None"
| "scan_lines (line # ls) name =
     (if startswith (lower line) name
      then (case split1 line CHR '':'' of
              _ # v # _ \<Rightarrow> Inr (Some (strip v))
            | _ \<Rightarrow> Inl IndexError)
      else scan_lines ls name)"

definition get_part_field :: "string \<Rightarrow> string \<Rightarrow> error + string option" where
  "get_part_field part name = scan_lines (readlines part) name"

subsection \<open>The subject pattern and the body delimiter\<close>

definition subject_match :: "string \<Rightarrow> string option" where
  \<comment> \<open>\<^verbatim>\<open>re.match(r'\[\w+ (\d+)\].*', s)\<close>: group 1 of the match, if there is one\<close>
  "subject_match s =
     (case s of
        [] \<Rightarrow> None
      | c # r \<Rightarrow>
          (let r1 = dropWhile isword r; r2 = drop 1 r1; r3 = dropWhile isdecimal r2
           in if c = CHR ''['' \<and> r1 \<noteq> r \<and> prefix '' '' r1 \<and> r3 \<noteq> r2 \<and> prefix '']'' r3
              then Some (takeWhile isdecimal r2) else None))"

definition match_delim :: "string \<Rightarrow> string option" where
  \<comment> \<open>\<^verbatim>\<open>-+\s+next part\s+-+$\<close> matched at the head of \<open>s\<close>: the text after the match\<close>
  "match_delim s =
     (let r1 = dropWhile (\<lambda>c. c = CHR ''-'') s; r2 = dropWhile isspace r1;
          r3 = drop 9 r2; r4 = dropWhile isspace r3; r5 = dropWhile (\<lambda>c. c = CHR ''-'') r4
      in if r1 \<noteq> s \<and> r2 \<noteq> r1 \<and> prefix ''next part'' r2 \<and> r4 \<noteq> r3 \<and> r5 \<noteq> r4 \<and>
            (r5 = [] \<or> prefix [NL] r5)
         then Some r5 else None)"

function re_split :: "bool \<Rightarrow> string \<Rightarrow> string \<Rightarrow> string list" where
  "re_split bol cur s =
     (case (if bol then match_delim s else None) of
        Some rest \<Rightarrow> cur # re_split False [] rest
      | None \<Rightarrow> (case s of [] \<Rightarrow> [cur] | c # cs \<Rightarrow> re_split (c = NL) (cur @ [c]) cs))"
  by pat_completeness auto
termination
proof (relation "measure (\<lambda>(bol, cur, s). length s)")
  show "wf (measure (\<lambda>(bol, cur, s). length s))" by simp
next
  fix bol :: bool and cur s :: string and rest
  assume "(if bol then match_delim s else None) = Some rest"
  then have m: "match_delim s = Some rest" by (simp split: if_splits)
  define r1 where "r1 = dropWhile (\<lambda>c. c = CHR ''-'') s"
  define r2 where "r2 = dropWhile isspace r1"
  define r4 where "r4 = dropWhile isspace (drop 9 r2)"
  from m have a: "r1 \<noteq> s" and b: "rest = dropWhile (\<lambda>c. c = CHR ''-'') r4"
    unfolding match_delim_def r1_def r2_def r4_def Let_def
    by (simp_all split: if_splits)
  have "length rest \<le> length r4" unfolding b by (rule length_dropWhile_le)
  also have "\<dots> \<le> length (drop 9 r2)" unfolding r4_def by (rule length_dropWhile_le)
  also have "\<dots> \<le> length r2" by simp
  also have "\<dots> \<le> length r1" unfolding r2_def by (rule length_dropWhile_le)
  also have "\<dots> < length s"
    using a unfolding r1_def by (cases s) (auto simp: less_Suc_eq_le length_dropWhile_le split: if_splits)
  finally show "((False, [], rest), bol, cur, s) \<in> measure (\<lambda>(bol, cur, s). length s)"
    by simp
next
  fix bol :: bool and cur s :: string and c cs
  assume "s = c # cs"
  then show "((c = NL, cur @ [c], cs), bol, cur, s) \<in> measure (\<lambda>(bol, cur, s). length s)"
    by simp
qed

declare re_split.simps [simp del]

subsection \<open>One message: the body of the loop of \<^verbatim>\<open>printrss\<close>\<close>

definition channel_pubdate :: "lib \<Rightarrow> string option \<Rightarrow> string" where
  \<comment> \<open>the branch taken while \<^verbatim>\<open>pubdate_rendered\<close> is false\<close>
  "channel_pubdate L date =
     (case date of
        Some d \<Rightarrow>
          if d \<noteq> [] then ''<pubDate>'' @ cgi_escape d @ ''</pubDate>''
          else ''<pubDate>'' @ cgi_escape (formatdate L) @ ''</pubDate>''
      | None \<Rightarrow> ''<pubDate>'' @ cgi_escape (formatdate L) @ ''</pubDate>'')"

definition author_lines :: "string option \<Rightarrow> string list" where
  "author_lines author =
     (case author of
        Some a \<Rightarrow>
          if a \<noteq> [] then [''<author>'' @ cgi_escape (replace a '' at '' ''@'') @ ''</author>'']
          else []
      | None \<Rightarrow> [])"

definition pubdate_lines :: "string option \<Rightarrow> string list" where
  "pubdate_lines date =
     (case date of
        Some d \<Rightarrow> if d \<noteq> [] then [''<pubDate>'' @ cgi_escape d @ ''</pubDate>''] else []
      | None \<Rightarrow> [])"

definition parsed_date :: "lib \<Rightarrow> string option \<Rightarrow> struct_time option" where
  \<comment> \<open>what \<^verbatim>\<open>date\<close> holds, as a truth value and for \<^verbatim>\<open>strftime\<close>, after \<^verbatim>\<open>date = parsedate(date)\<close>\<close>
  "parsed_date L date =
     (case date of Some d \<Rightarrow> if d \<noteq> [] then parsedate L d else None | None \<Rightarrow> None)"

definition item_link :: "string \<Rightarrow> struct_time \<Rightarrow> string \<Rightarrow> printed" where
  "item_link url tm n =
     (case strftime_Y_B tm of
        Inl e \<Rightarrow> ([], Some e)
      | Inr ym \<Rightarrow>
          ([''<link>'' @ (url @ ym @ ''/'' @ format_06d (int_of_str n - 1) @ ''.html'') @ ''</link>''],
           None))"

definition subject_lines :: "lib \<Rightarrow> string \<Rightarrow> struct_time option \<Rightarrow> string option \<Rightarrow> printed" where
  "subject_lines L url date subject =
     (case subject of
        None \<Rightarrow> ([], None)
      | Some s \<Rightarrow>
          if s = [] then ([], None)
          else (case decode_header_str L (cgi_escape s) of
                  Inl e \<Rightarrow> ([], Some e)
                | Inr title \<Rightarrow>
                    andthen ([''<title>'' @ title @ ''</title>''], None)
                      (case date of
                         None \<Rightarrow> ([], None)
                       | Some tm \<Rightarrow>
                           (case subject_match title of
                              None \<Rightarrow> ([], None)
                            | Some n \<Rightarrow> item_link url tm n))))"

definition guid_lines :: "string option \<Rightarrow> string list" where
  \<open>guid_lines guid =
     (case guid of
        Some g \<Rightarrow>
          if g \<noteq> [] then [''<guid isPermaLink="false">'' @ cgi_escape (strip_chars g ''<>'') @ ''</guid>'']
          else []
      | None \<Rightarrow> [])\<close>

definition enclosure :: "lib \<Rightarrow> string \<Rightarrow> printed" where
  \<comment> \<open>one pass of \<^verbatim>\<open>for part in parts[1:]\<close>\<close>
  \<open>enclosure L part =
     (if \<not> contains part ''A non-text attachment was scrubbed'' then ([], None)
      else (case get_part_field part ''type'' of
              Inl e \<Rightarrow> ([], Some e)
            | Inr mime_type \<Rightarrow>
          (case get_part_field part ''size'' of
              Inl e \<Rightarrow> ([], Some e)
            | Inr sz \<Rightarrow>
          (case get_part_field part ''url'' of
              Inl e \<Rightarrow> ([], Some e)
            | Inr url \<Rightarrow>
          (case mime_type of None \<Rightarrow> ([], None) | Some t \<Rightarrow>
          (case sz of None \<Rightarrow> ([], None) | Some z \<Rightarrow>
          (case url of None \<Rightarrow> ([], None) | Some u \<Rightarrow>
             if t \<noteq> [] \<and> z \<noteq> [] \<and> u \<noteq> [] then
               (case urlparse_netloc L u of
                  Inl e \<Rightarrow> ([], Some e)
                | Inr netloc \<Rightarrow>
                    if netloc \<noteq> []
                    then ([''<enclosure url="'' @ u @ ''" length="'' @ z @ ''" type="'' @ t @ ''" />''],
                          None)
                    else ([], None))
             else ([], None))))))))\<close>

fun enclosures :: "lib \<Rightarrow> string list \<Rightarrow> printed" where
  "enclosures L [] = ([], None)"
| "enclosures L (part # parts) = andthen (enclosure L part) (enclosures L parts)"

definition body_lines :: "lib \<Rightarrow> payload \<Rightarrow> printed" where
  \<comment> \<open>from \<^verbatim>\<open>mail.is_multipart()\<close> to the end of the enclosure loop; \<^verbatim>\<open>re.split\<close> refuses
      the message object that \<^verbatim>\<open>get_payload(0)\<close> returns\<close>
  "body_lines L p =
     (case p of
        Multipart \<Rightarrow> ([], Some TypeError)
      | Text body \<Rightarrow>
          (case map strip (re_split True [] body) of
             [] \<Rightarrow> ([], Some IndexError)
           | first # rest \<Rightarrow>
               andthen
                 ([''<description><![CDATA['' @ replace first [NL] ''<br/>'' @ '']]></description>''], None)
                 (enclosures L rest)))"

definition render_item :: "lib \<Rightarrow> string \<Rightarrow> bool \<Rightarrow> mail \<Rightarrow> printed" where
  "render_item L url pubdate_rendered m =
     andthen
       ((if \<not> pubdate_rendered then [channel_pubdate L (mail_date m)] else []) @
        [''<item>''] @ author_lines (mail_from m) @ pubdate_lines (mail_date m), None)
    (andthen (subject_lines L url (parsed_date L (mail_date m)) (mail_subject m))
    (andthen (guid_lines (mail_message_id m), None)
    (andthen (body_lines L (mail_payload m))
             ([''</item>''], None))))"

fun print_items :: "lib \<Rightarrow> string \<Rightarrow> bool \<Rightarrow> mail list \<Rightarrow> printed" where
  \<comment> \<open>\<^verbatim>\<open>for mail in mails\<close>, from a given value of \<^verbatim>\<open>pubdate_rendered\<close>\<close>
  "print_items L url pubdate_rendered [] = ([], None)"
| "print_items L url pubdate_rendered (m # ms) =
     andthen (render_item L url pubdate_rendered m) (print_items L url True ms)"

definition channel_head :: "archive \<Rightarrow> printed" where
  \<open>channel_head a =
     andthen
       ([''<?xml version="1.0" encoding="UTF-8" ?>'', ''<rss version="2.0">'', ''<channel>'',
         ''<language>'' @ cgi_escape ''ja-JP'' @ ''</language>''], None)
       (case get_title a of
          Inl e \<Rightarrow> ([], Some e)
        | Inr title \<Rightarrow>
            ((if truthy title
              then (case title of
                      Some t \<Rightarrow> [''<title>'' @ cgi_escape t @ ''</title>'',
                                 ''<description>'' @ cgi_escape t @ ''</description>'']
                    | None \<Rightarrow> [])
              else []) @
             [''<link>'' @ cgi_escape (archive_url a) @ ''</link>''], None))\<close>

definition printrss :: "lib \<Rightarrow> archive \<Rightarrow> mail list \<Rightarrow> printed" where
  "printrss L a mails =
     andthen (channel_head a)
    (andthen (print_items L (archive_url a) False mails)
             ([''</channel>'', ''</rss>''], None))"

section \<open>Fetching and selecting\<close>

text \<open>
  The outside world: what a URL serves, what \<^verbatim>\<open>gzip\<close> makes of the bytes, what
  \<^verbatim>\<open>mailbox.mbox\<close> finds in a file (the raw messages, in container order), how bytes decode
  under an encoding, and the two parsers. The state holds what the run leaves behind:
  the URLs it opened and the temporary files that exist.
\<close>

record env =
  urlopen_read :: "string \<Rightarrow> error + string"
  gunzip :: "string \<Rightarrow> error + string"
  mbox_open :: "string \<Rightarrow> error + string list"
  bytes_decode :: "string \<Rightarrow> string \<Rightarrow> error + string"
  mboxMessage :: "string \<Rightarrow> mail"
  html_parser :: "string \<Rightarrow> soup"

record sys =
  fetched :: "string list"
  tmp_files :: "(nat \<times> string) list"
  tmp_count :: nat

definition fetch :: "env \<Rightarrow> string \<Rightarrow> sys \<Rightarrow> (error + string) \<times> sys" where
  "fetch E url s = (urlopen_read E url, s\<lparr>fetched := fetched s @ [url]\<rparr>)"

definition mkstemp :: "sys \<Rightarrow> nat \<times> sys" where
  \<comment> \<open>a new, empty file under a name not used before\<close>
  "mkstemp s = (tmp_count s, s\<lparr>tmp_files := (tmp_count s, []) # tmp_files s, tmp_count := Suc (tmp_count s)\<rparr>)"

definition file_write :: "nat \<Rightarrow> string \<Rightarrow> sys \<Rightarrow> sys" where
  "file_write f data s =
     s\<lparr>tmp_files := map (\<lambda>(g, old). if g = f then (g, old @ data) else (g, old)) (tmp_files s)\<rparr>"

definition os_remove :: "nat \<Rightarrow> sys \<Rightarrow> sys" where
  "os_remove f s = s\<lparr>tmp_files := filter (\<lambda>(g, old). g \<noteq> f) (tmp_files s)\<rparr>"

definition file_exists :: "nat \<Rightarrow> sys \<Rightarrow> bool" where
  "file_exists f s = (f \<in> set (map fst (tmp_files s)))"

definition MailmanArchive :: "env \<Rightarrow> string \<Rightarrow> sys \<Rightarrow> (error + archive) \<times> sys" where
  \<comment> \<open>\<^verbatim>\<open>MailmanArchive.__init__\<close>; \<^verbatim>\<open>archive_url[-1]\<close> raises on the empty string\<close>
  "MailmanArchive E url0 s =
     (if url0 = [] then (Inl IndexError, s)
      else
        (let url = (if last url0 \<noteq> CHR ''/'' then url0 @ ''/'' else url0) in
         (case fetch E url s of
            (Inl e, s1) \<Rightarrow> (Inl e, s1)
          | (Inr page, s1) \<Rightarrow> (Inr \<lparr>archive_url = url, archive_soup = html_parser E page\<rparr>, s1))))"

definition get_month :: "env \<Rightarrow> string \<Rightarrow> sys \<Rightarrow> (error + string list) \<times> sys" where
  "get_month E url s =
     (case fetch E url s of
        (Inl e, s1) \<Rightarrow> (Inl e, s1)
      | (Inr data_gz, s1) \<Rightarrow>
          (case mkstemp s1 of
             (tmpfile, s2) \<Rightarrow>
               (case gunzip E data_gz of
                  Inl e \<Rightarrow> (Inl e, s2)
                | Inr data \<Rightarrow>
                    (let s3 = file_write tmpfile data s2 in
                     (case mbox_open E data of
                        Inl e \<Rightarrow> (Inl e, s3)
                      | Inr mbox \<Rightarrow> (Inr mbox, os_remove tmpfile s3))))))"

fun decode_all :: "env \<Rightarrow> string \<Rightarrow> string list \<Rightarrow> error + mail list" where
  \<comment> \<open>the list comprehension over \<^verbatim>\<open>range(len(mbox))\<close>\<close>
  "decode_all E encoding [] = Inr []"
| "decode_all E encoding (b # bs) =
     (case bytes_decode E b encoding of
        Inl e \<Rightarrow> Inl e
      | Inr text \<Rightarrow>
          (case decode_all E encoding bs of
             Inl e \<Rightarrow> Inl e
           | Inr ms \<Rightarrow> Inr (mboxMessage E text # ms)))"

definition load_month :: "env \<Rightarrow> string \<Rightarrow> string \<Rightarrow> sys \<Rightarrow> (error + mail list) \<times> sys" where
  \<comment> \<open>the first two statements of the loop of \<^verbatim>\<open>main\<close>: \<^verbatim>\<open>mbox\<close>, then \<^verbatim>\<open>month\<close> before it is
      reversed\<close>
  "load_month E encoding month_url s =
     (case get_month E month_url s of
        (Inl e, s1) \<Rightarrow> (Inl e, s1)
      | (Inr mbox, s1) \<Rightarrow> (decode_all E encoding mbox, s1))"

fun collect :: "env \<Rightarrow> string \<Rightarrow> int \<Rightarrow> string list \<Rightarrow> mail list \<Rightarrow> sys \<Rightarrow> (error + mail list) \<times> sys" where
  \<comment> \<open>\<^verbatim>\<open>for month_url in months\<close> in \<^verbatim>\<open>main\<close>, with \<^verbatim>\<open>mails\<close> as collected so far\<close>
  "collect E encoding count [] mails s = (Inr mails, s)"
| "collect E encoding count (month_url # months) mails s =
     (case load_month E encoding month_url s of
        (Inl e, s1) \<Rightarrow> (Inl e, s1)
      | (Inr month, s1) \<Rightarrow>
          (let mails1 = mails @ rev month in
           if int (length mails1) \<ge> count then (Inr mails1, s1)
           else collect E encoding count months mails1 s1))"

definition slice_to :: "'a list \<Rightarrow> int \<Rightarrow> 'a list" where
  \<comment> \<open>\<^verbatim>\<open>xs[:n]\<close>: a negative \<open>n\<close> counts from the end\<close>
  "slice_to xs n = (if n < 0 then take (nat (int (length xs) + n)) xs else take (nat n) xs)"

definition select_mails :: "env \<Rightarrow> string \<Rightarrow> int \<Rightarrow> string list \<Rightarrow> sys \<Rightarrow> (error + mail list) \<times> sys" where
  \<comment> \<open>\<^verbatim>\<open>main\<close> from \<^verbatim>\<open>mails = []\<close> to the trimming; \<open>count\<close> is \<^verbatim>\<open>options.count\<close>\<close>
  "select_mails E encoding count months s =
     (case collect E encoding count months [] s of
        (Inl e, s1) \<Rightarrow> (Inl e, s1)
      | (Inr mails, s1) \<Rightarrow>
          (Inr (if int (length mails) > count then slice_to mails count else mails), s1))"

section \<open>Reading the output\<close>

definition item_body :: "lib \<Rightarrow> string \<Rightarrow> mail \<Rightarrow> printed" where
  \<comment> \<open>what one pass of the loop prints between the item's pubDate and its end tag, as one piece\<close>
  "item_body L url m =
     andthen (subject_lines L url (parsed_date L (mail_date m)) (mail_subject m))
    (andthen (guid_lines (mail_message_id m), None)
             (body_lines L (mail_payload m)))"

fun markup_safe :: "string \<Rightarrow> bool" where
  \<comment> \<open>text with no \<^verbatim>\<open><\<close> and no \<^verbatim>\<open>>\<close>, in which every \<^verbatim>\<open>&\<close> starts one of the three entities of
      \<^verbatim>\<open>cgi.escape\<close>\<close>
  "markup_safe [] = True"
| "markup_safe (c # cs) =
     (c \<noteq> CHR ''<'' \<and> c \<noteq> CHR ''>'' \<and>
      (if c = CHR ''&'' then prefix ''amp;'' cs \<or> prefix ''lt;'' cs \<or> prefix ''gt;'' cs else True) \<and>
      markup_safe cs)"

definition escape_char :: "char \<Rightarrow> string" where
  "escape_char c =
     (if c = CHR ''&'' then ''&amp;'' else if c = CHR ''<'' then ''&lt;''
      else if c = CHR ''>'' then ''&gt;'' else [c])"

definition escaped_element :: "string \<Rightarrow> string \<Rightarrow> string \<Rightarrow> bool" where
  \<comment> \<open>a printed line that opens with the start tag \<open>a\<close> is the element with an escaped text and
      the end tag \<open>b\<close>\<close>
  "escaped_element a b l = (if prefix a l then \<exists>v. l = a @ cgi_escape v @ b else True)"

fun outside_items :: "bool \<Rightarrow> string list \<Rightarrow> string list" where
  \<comment> \<open>the printed lines that stand at channel level, outside every item; the flag says
      whether an item is open\<close>
  "outside_items inside [] = []"
| "outside_items inside (l # ls) =
     (if l = ''<item>'' then outside_items True ls
      else if l = ''</item>'' then outside_items False ls
      else if inside then outside_items True ls
      else l # outside_items False ls)"

definition escaped_fields :: "string \<Rightarrow> bool" where
  \<comment> \<open>the elements that only the channel header and the loop's fixed fields print\<close>
  \<open>escaped_fields l =
     (escaped_element ''<language>'' ''</language>'' l \<and>
      escaped_element ''<pubDate>'' ''</pubDate>'' l \<and>
      escaped_element ''<author>'' ''</author>'' l \<and>
      escaped_element ''<guid isPermaLink="false">'' ''</guid>'' l)\<close>

definition escaped_channel_fields :: "string \<Rightarrow> bool" where
  "escaped_channel_fields l =
     (escaped_element ''<title>'' ''</title>'' l \<and>
      escaped_element ''<description>'' ''</description>'' l \<and>
      escaped_element ''<link>'' ''</link>'' l)"

definition opens_with :: "string list \<Rightarrow> string \<Rightarrow> bool" where
  \<comment> \<open>the line starts with one of the given start tags\<close>
  "opens_with ps l = (\<exists>p\<in>set ps. prefix p l)"

section \<open>Sample inputs\<close>

definition env0 :: env where
  "env0 = \<lparr>urlopen_read = (\<lambda>url. Inr ''<html/>''), gunzip = (\<lambda>b. Inl GzipError),
     mbox_open = (\<lambda>b. Inr []), bytes_decode = (\<lambda>b enc. Inr b),
     mboxMessage = (\<lambda>t. \<lparr>mail_date = None, mail_from = None, mail_subject = None,
        mail_message_id = None, mail_payload = Text t\<rparr>),
     html_parser = (\<lambda>page. \<lparr>soup_html = None\<rparr>)\<rparr>"

definition sys0 :: sys where
  "sys0 = \<lparr>fetched = [], tmp_files = [], tmp_count = 0\<rparr>"

definition lib0 :: lib where
  "lib0 = \<lparr>decode_header_str = (\<lambda>s. Inr s),
     parsedate = (\<lambda>d. if d = ''Wed, 1 Apr 2020 10:00:00 +0000''
        then Some \<lparr>tm_year = 2020, tm_mon = 4, tm_mday = 1, tm_hour = 10, tm_min = 0, tm_sec = 0\<rparr>
        else None),
     formatdate = ''Sat, 07 Nov 2026 12:00:00 -0000'',
     urlparse_netloc = (\<lambda>u. if prefix ''http://example.org/'' u then Inr ''example.org'' else Inr [])\<rparr>"


definition page_with_title :: "string option \<Rightarrow> archive" where
  "page_with_title v =
     \<lparr>archive_url = ''http://lists.example.org/pipermail/dev/'',
      archive_soup = \<lparr>soup_html = Some (Html (Some (Head (Some (Title v)))))\<rparr>\<rparr>"

definition text_mail :: "string \<Rightarrow> mail" where
  "text_mail t = \<lparr>mail_date = None, mail_from = None, mail_subject = None,
     mail_message_id = None, mail_payload = Text t\<rparr>"

definition env1 :: env where
  \<comment> \<open>three months: \<open>u1\<close> holds the messages a, b, c; \<open>u2\<close> holds d, e; any other URL holds f\<close>
  "env1 = \<lparr>urlopen_read = (\<lambda>url. Inr url), gunzip = (\<lambda>b. Inr b),
     mbox_open = (\<lambda>b. if b = ''u1'' then Inr [''a'', ''b'', ''c'']
                        else if b = ''u2'' then Inr [''d'', ''e''] else Inr [''f'']),
     bytes_decode = (\<lambda>b enc. Inr b), mboxMessage = text_mail,
     html_parser = (\<lambda>page. \<lparr>soup_html = None\<rparr>)\<rparr>"

definition notice :: "string \<Rightarrow> string \<Rightarrow> string" where
  \<comment> \<open>a scrubbed-attachment notice with the given type and URL\<close>
  "notice t u =
     ''A non-text attachment was scrubbed...'' @ [NL] @ ''Type: '' @ t @ [NL] @
     ''Size: 12345 bytes'' @ [NL] @ ''Url: '' @ u"

definition mail42 :: mail where
  "mail42 = \<lparr>mail_date = Some ''Wed, 1 Apr 2020 10:00:00 +0000'',
     mail_from = Some ''jane at example.org'',
     mail_subject = Some ''[project 42] Fix bug'',
     mail_message_id = Some ''<abc123@host>'',
     mail_payload = Text ''hello''\<rparr>"

definition mail_quote :: mail where
  \<comment> \<open>a sender with a quoted name, and an attachment whose URL has a query\<close>
  \<open>mail_quote = \<lparr>mail_date = None,
     mail_from = Some ''"Bob" <bob at example.org>'',
     mail_subject = None,
     mail_message_id = None,
     mail_payload = Text (''see attachment'' @ [NL] @
       ''-------------- next part --------------'' @ [NL] @
       notice ''image/png'' ''http://example.org/get?a=1&b=2'')\<rparr>\<close>

section \<open>Construction of the archive\<close>

text \<open>
  C10. Construction succeeds only for a nonempty base URL. On the empty string the
  normalisation reads the last character and raises \<open>IndexError\<close> with nothing fetched.
  On a nonempty string the URL kept is the input when it ends in a slash and the input
  with a slash appended otherwise; it ends in a slash, it is the one URL fetched, and the
  archive is built from the page whenever that fetch returns one.
\<close>

theorem archive_url_normalized:
  "MailmanArchive E [] s = (Inl IndexError, s) \<and>
   (url0 \<noteq> [] \<longrightarrow>
      (let n = (if endswith url0 ''/'' then url0 else url0 @ ''/'') in
         endswith n ''/'' \<and>
         snd (MailmanArchive E url0 s) = s\<lparr>fetched := fetched s @ [n]\<rparr> \<and>
         fst (MailmanArchive E url0 s) =
           (case urlopen_read E n of
              Inl e \<Rightarrow> Inl e
            | Inr page \<Rightarrow> Inr \<lparr>archive_url = n, archive_soup = html_parser E page\<rparr>)))"
proof -
  have e: "MailmanArchive E [] s = (Inl IndexError, s)"
    by (simp add: MailmanArchive_def)
  have l: "url0 \<noteq> [] \<Longrightarrow> endswith url0 ''/'' = (last url0 = CHR ''/'')"
    by (cases url0 rule: rev_cases) (auto simp: endswith_def)
  have n: "url0 \<noteq> [] \<Longrightarrow>
      (let n = (if endswith url0 ''/'' then url0 else url0 @ ''/'') in
         endswith n ''/'' \<and>
         snd (MailmanArchive E url0 s) = s\<lparr>fetched := fetched s @ [n]\<rparr> \<and>
         fst (MailmanArchive E url0 s) =
           (case urlopen_read E n of
              Inl e \<Rightarrow> Inl e
            | Inr page \<Rightarrow> Inr \<lparr>archive_url = n, archive_soup = html_parser E page\<rparr>))"
    using l by (simp add: MailmanArchive_def Let_def fetch_def endswith_def split: sum.splits)
  from e n show ?thesis by blast
qed

theorem archive_url_normalized_witness:
  "MailmanArchive env0 ''http://lists.example.org/pipermail/dev'' sys0 =
     (Inr \<lparr>archive_url = ''http://lists.example.org/pipermail/dev/'',
            archive_soup = \<lparr>soup_html = None\<rparr>\<rparr>,
      \<lparr>fetched = [''http://lists.example.org/pipermail/dev/''], tmp_files = [], tmp_count = 0\<rparr>) \<and>
   MailmanArchive env0 [] sys0 = (Inl IndexError, sys0)"
  using archive_url_normalized [of env0 sys0 "''http://lists.example.org/pipermail/dev''"]
  by (simp add: endswith_def suffix_to_prefix Let_def env0_def sys0_def prod_eq_iff)

section \<open>Loading one month\<close>

text \<open>
  C8. The claim: whenever \<^verbatim>\<open>get_month\<close> has created its temporary file, the file is gone
  when \<^verbatim>\<open>get_month\<close> ends, also when it ends by an exception. The code removes the file
  only after \<^verbatim>\<open>mailbox.mbox\<close> has returned: for a month whose bytes are not gzip data the
  call raises from \<^verbatim>\<open>GzipFile.read\<close> and the file it has just created still exists.
\<close>

theorem get_month_gzip_failure_keeps_tmpfile:
  "get_month env0 ''http://lists.example.org/pipermail/dev/2020-April.txt.gz'' sys0 =
     (Inl GzipError,
      \<lparr>fetched = [''http://lists.example.org/pipermail/dev/2020-April.txt.gz''],
       tmp_files = [(0, [])], tmp_count = 1\<rparr>) \<and>
   file_exists 0 (snd (get_month env0 ''http://lists.example.org/pipermail/dev/2020-April.txt.gz'' sys0))"
  by (simp add: get_month_def fetch_def mkstemp_def env0_def sys0_def file_exists_def)

text \<open>On the path without an exception the file is removed, as the claim says.\<close>

lemma os_remove_gone: "\<not> file_exists f (os_remove f t)"
  by (auto simp: file_exists_def os_remove_def)

lemma get_month_success_removes_tmpfile:
  assumes "urlopen_read E url = Inr data_gz" and "gunzip E data_gz = Inr data"
    and "mbox_open E data = Inr mbox"
  shows "fst (get_month E url s) = Inr mbox \<and> \<not> file_exists (tmp_count s) (snd (get_month E url s))"
proof -
  have "get_month E url s =
      (Inr mbox, os_remove (tmp_count s) (file_write (tmp_count s) data (snd (mkstemp (snd (fetch E url s))))))"
    using assms by (simp add: get_month_def fetch_def mkstemp_def Let_def)
  then show ?thesis by (simp add: os_remove_gone)
qed

section \<open>The title of the index page\<close>




section \<open>Selecting the messages\<close>

lemma get_month_fetched: "fetched (snd (get_month E url s)) = fetched s @ [url]"
  by (simp add: get_month_def fetch_def mkstemp_def file_write_def os_remove_def Let_def
      split: sum.splits)

lemma load_month_fetched: "fetched (snd (load_month E enc url s)) = fetched s @ [url]"
  using get_month_fetched [of E url s]
  by (auto simp: load_month_def split: prod.splits sum.splits)

lemma collect_characterised:
  assumes "list_all2 (\<lambda>u m. \<forall>s. fst (load_month E enc u s) = Inr m) months ms"
  shows "\<exists>n. n \<le> length months \<and> (months \<noteq> [] \<longrightarrow> 0 < n) \<and>
     (\<forall>j. 0 < j \<and> j < n \<longrightarrow> int (length mails + length (concat (take j ms))) < count) \<and>
     (n < length months \<longrightarrow> count \<le> int (length mails + length (concat (take n ms)))) \<and>
     fst (collect E enc count months mails s) = Inr (mails @ concat (map rev (take n ms))) \<and>
     fetched (snd (collect E enc count months mails s)) = fetched s @ take n months"
  using assms
proof (induction months ms arbitrary: mails s rule: list_all2_induct)
  case Nil
  show ?case by (rule exI [of _ 0]) simp
next
  case (Cons u months m ms)
  obtain s1 where l: "load_month E enc u s = (Inr m, s1)"
    using Cons.hyps(1) by (metis prod.collapse)
  have f1: "fetched s1 = fetched s @ [u]"
    using load_month_fetched [of E enc u s] l by simp
  show ?case
  proof (cases "count \<le> int (length (mails @ rev m))")
    case True
    then have "collect E enc count (u # months) mails s = (Inr (mails @ rev m), s1)"
      using l by simp
    with True f1 show ?thesis by (intro exI [of _ 1]) simp
  next
    case False
    then have c: "collect E enc count (u # months) mails s = collect E enc count months (mails @ rev m) s1"
      using l by simp
    from Cons.IH [of "mails @ rev m" s1] obtain n where n:
      "n \<le> length months" "months \<noteq> [] \<longrightarrow> 0 < n"
      "\<forall>j. 0 < j \<and> j < n \<longrightarrow> int (length (mails @ rev m) + length (concat (take j ms))) < count"
      "n < length months \<longrightarrow> count \<le> int (length (mails @ rev m) + length (concat (take n ms)))"
      "fst (collect E enc count months (mails @ rev m) s1) = Inr ((mails @ rev m) @ concat (map rev (take n ms)))"
      "fetched (snd (collect E enc count months (mails @ rev m) s1)) = fetched s1 @ take n months"
      by blast
    have j: "int (length mails + length (concat (take j (m # ms)))) < count" if "0 < j" "j < Suc n" for j
    proof (cases j)
      case 0
      with that show ?thesis by simp
    next
      case (Suc k)
      show ?thesis
      proof (cases "k = 0")
        case True
        with Suc False show ?thesis by simp
      next
        case False
        with Suc that n(3) have "int (length (mails @ rev m) + length (concat (take k ms))) < count"
          by simp
        with Suc show ?thesis by (simp add: add.assoc)
      qed
    qed
    show ?thesis
      apply (rule exI [of _ "Suc n"])
      using n(1,4,5,6) j c f1 by (simp add: add.assoc)
  qed
qed


lemma select_mails_characterised:
  assumes "list_all2 (\<lambda>u m. \<forall>s. fst (load_month E enc u s) = Inr m) months ms"
  shows "\<exists>n. n \<le> length months \<and> (months \<noteq> [] \<longrightarrow> 0 < n) \<and>
     (\<forall>j. 0 < j \<and> j < n \<longrightarrow> int (length (concat (take j ms))) < count) \<and>
     (n < length months \<longrightarrow> count \<le> int (length (concat (take n ms)))) \<and>
     fetched (snd (select_mails E enc count months s)) = fetched s @ take n months \<and>
     (0 \<le> count \<longrightarrow>
        fst (select_mails E enc count months s) = Inr (take (nat count) (concat (map rev (take n ms)))))"
proof -
  from collect_characterised [OF assms, of "[]" count s] obtain n where n:
    "n \<le> length months" "months \<noteq> [] \<longrightarrow> 0 < n"
    "\<forall>j. 0 < j \<and> j < n \<longrightarrow> int (length (concat (take j ms))) < count"
    "n < length months \<longrightarrow> count \<le> int (length (concat (take n ms)))"
    "fst (collect E enc count months [] s) = Inr (concat (map rev (take n ms)))"
    "fetched (snd (collect E enc count months [] s)) = fetched s @ take n months"
    by auto
  obtain s1 where c: "collect E enc count months [] s = (Inr (concat (map rev (take n ms))), s1)"
    using n(5) by (metis prod.collapse)
  have f: "fetched (snd (select_mails E enc count months s)) = fetched s @ take n months"
    using n(6) c by (simp add: select_mails_def)
  have r: "fst (select_mails E enc count months s) = Inr (take (nat count) (concat (map rev (take n ms))))"
    if "0 \<le> count"
    using that c by (simp add: select_mails_def slice_to_def)
  from n(1-4) f r show ?thesis by blast
qed

lemma env1_loads:
  "list_all2 (\<lambda>u m. \<forall>s. fst (load_month env1 ''ascii'' u s) = Inr m) [''u1'', ''u2'', ''u3'']
     [[text_mail ''a'', text_mail ''b'', text_mail ''c''], [text_mail ''d'', text_mail ''e''],
      [text_mail ''f'']]"
  by (simp add: load_month_def get_month_def fetch_def mkstemp_def Let_def env1_def)

lemma select_env1_4:
  "select_mails env1 ''ascii'' 4 [''u1'', ''u2'', ''u3''] sys0 =
     (Inr [text_mail ''c'', text_mail ''b'', text_mail ''a'', text_mail ''e''],
      \<lparr>fetched = [''u1'', ''u2''], tmp_files = [], tmp_count = 2\<rparr>)"
  by (simp add: select_mails_def load_month_def get_month_def fetch_def mkstemp_def Let_def
      file_write_def os_remove_def slice_to_def env1_def sys0_def)

text \<open>
  C5. The loop of \<^verbatim>\<open>main\<close> opens the months in the order of the list and stops after the
  first month with which the number of messages collected reaches \<open>count\<close>; each month is
  appended with its messages in reverse container order. When every month loads (\<open>ms\<close>
  are the months' messages): the months opened are the first \<open>n\<close> of the list, at least one
  unless the list is empty, no shorter nonempty prefix holds \<open>count\<close> messages, an \<open>n\<close>
  short of the whole list does, and for a \<open>count\<close> that is not negative the result is the
  first \<open>count\<close> messages of the opened months, each reversed, one after the other. No
  date is read.
\<close>

theorem select_mails_order:
  assumes "list_all2 (\<lambda>u m. \<forall>s. fst (load_month E encoding u s) = Inr m) months ms"
  shows "\<exists>n. n \<le> length months \<and> (months \<noteq> [] \<longrightarrow> 0 < n) \<and>
     (\<forall>j. 0 < j \<and> j < n \<longrightarrow> int (length (concat (take j ms))) < count) \<and>
     (n < length months \<longrightarrow> count \<le> int (length (concat (take n ms)))) \<and>
     fetched (snd (select_mails E encoding count months s)) = fetched s @ take n months \<and>
     (0 \<le> count \<longrightarrow>
        fst (select_mails E encoding count months s) =
          Inr (take (nat count) (concat (map rev (take n ms)))))"
  using assms by (rule select_mails_characterised)

text \<open>
  Three month links holding 3, 2 and 1 messages, \<open>count = 4\<close>: the first month reversed,
  then the last message of the second; the third month is not fetched.
\<close>

theorem select_mails_order_witness:
  "fst (select_mails env1 ''ascii'' 4 [''u1'', ''u2'', ''u3''] sys0) =
      Inr [text_mail ''c'', text_mail ''b'', text_mail ''a'', text_mail ''e''] \<and>
   fetched (snd (select_mails env1 ''ascii'' 4 [''u1'', ''u2'', ''u3''] sys0)) = [''u1'', ''u2'']"
  using select_mails_order [OF env1_loads, of 4 sys0] by (simp add: select_env1_4)

text \<open>
  C2, as amended. When every month loads and \<open>count\<close> is not negative, the result has
  \<open>min count total\<close> messages, \<open>total\<close> being the number of messages of all months, and so
  at most \<open>count\<close>; for \<open>count = 0\<close> it is empty.
\<close>

theorem select_mails_length:
  assumes "0 \<le> count"
    and "list_all2 (\<lambda>u m. \<forall>s. fst (load_month E encoding u s) = Inr m) months ms"
  shows "\<exists>r. fst (select_mails E encoding count months s) = Inr r \<and>
     length r = min (nat count) (length (concat ms)) \<and> int (length r) \<le> count"
proof -
  from select_mails_characterised [OF assms(2), of count s] assms(1) obtain n where n:
    "n \<le> length months"
    "n < length months \<longrightarrow> count \<le> int (length (concat (take n ms)))"
    "fst (select_mails E encoding count months s) =
       Inr (take (nat count) (concat (map rev (take n ms))))"
    by blast
  have len: "length months = length ms"
    using assms(2) by (rule list_all2_lengthD)
  have lr: "length (concat (map rev xs)) = length (concat xs)" for xs :: "mail list list"
    by (induction xs) simp_all
  have le: "length (concat (take n ms)) \<le> length (concat ms)"
  proof -
    have "length (concat ms) = length (concat (take n ms)) + length (concat (drop n ms))"
      by (metis append_take_drop_id concat_append length_append)
    then show ?thesis by simp
  qed
  have "min (nat count) (length (concat (take n ms))) = min (nat count) (length (concat ms))"
  proof (cases "n < length months")
    case True
    with n(2) have "nat count \<le> length (concat (take n ms))" by simp
    with le show ?thesis by simp
  next
    case False
    with n(1) len have "take n ms = ms" by simp
    then show ?thesis by simp
  qed
  then have "length (take (nat count) (concat (map rev (take n ms)))) = min (nat count) (length (concat ms))"
    by (simp add: lr min.commute)
  moreover have "int (min (nat count) (length (concat ms))) \<le> count"
    using assms(1) by simp
  ultimately show ?thesis using n(3) by simp
qed

theorem select_mails_length_witness:
  "(\<exists>r. fst (select_mails env1 ''ascii'' 4 [''u1'', ''u2'', ''u3''] sys0) = Inr r \<and> length r = 4) \<and>
   (\<exists>r. fst (select_mails env1 ''ascii'' 10 [''u1'', ''u2'', ''u3''] sys0) = Inr r \<and> length r = 6) \<and>
   fst (select_mails env1 ''ascii'' 0 [''u1'', ''u2'', ''u3''] sys0) = Inr []"
  using select_mails_length [OF _ env1_loads, of 4 sys0]
    select_mails_length [OF _ env1_loads, of 10 sys0]
    select_mails_length [OF _ env1_loads, of 0 sys0]
  by auto

text \<open>
  C2 as stated fails for a negative \<open>count\<close>: with \<open>count = -1\<close> the loop stops after the first
  month, and \<^verbatim>\<open>mails[:count]\<close> drops the last of its three messages and keeps two.
\<close>

theorem select_mails_negative_count_counterexample:
  "fst (select_mails env1 ''ascii'' (- 1) [''u1'', ''u2'', ''u3''] sys0) =
      Inr [text_mail ''c'', text_mail ''b''] \<and>
   fst (select_mails env1 ''ascii'' (- 1) [''u1'', ''u2'', ''u3''] sys0) \<noteq> Inr []"
  by (simp add: select_mails_def load_month_def get_month_def fetch_def mkstemp_def Let_def
      file_write_def os_remove_def slice_to_def env1_def sys0_def)

section \<open>Enclosures\<close>

lemma scan_lines_find:
  "scan_lines ls name =
     (case find (\<lambda>l. startswith (lower l) name) ls of
        None \<Rightarrow> Inr None
      | Some l \<Rightarrow>
          if CHR '':'' \<in> set l then Inr (Some (strip (tl (dropWhile (\<lambda>c. c \<noteq> CHR '':'') l))))
          else Inl IndexError)"
proof (induction ls)
  case Nil
  show ?case by simp
next
  case (Cons l ls)
  show ?case
  proof (cases "startswith (lower l) name")
    case True
    show ?thesis
    proof (cases "dropWhile (\<lambda>c. c \<noteq> CHR '':'') l")
      case Nil
      have s: "split1 l CHR '':'' = [l]" unfolding split1_def Nil by simp
      from Nil have "CHR '':'' \<notin> set l" by auto
      with True s show ?thesis by simp
    next
      case (Cons c rest)
      have s: "split1 l CHR '':'' = [takeWhile (\<lambda>c. c \<noteq> CHR '':'') l, rest]"
        unfolding split1_def Cons by simp
      have "CHR '':'' \<in> set l"
      proof (rule ccontr)
        assume "CHR '':'' \<notin> set l"
        then have "dropWhile (\<lambda>c. c \<noteq> CHR '':'') l = []" by auto
        with Cons show False by simp
      qed
      with True s Cons show ?thesis by simp
    qed
  next
    case False
    with Cons show ?thesis by simp
  qed
qed

lemma enclosure_cases:
  "enclosure L part =
     (if \<not> contains part ''A non-text attachment was scrubbed'' then ([], None)
      else (case get_part_field part ''type'' of Inl e \<Rightarrow> ([], Some e) | Inr t \<Rightarrow>
           (case get_part_field part ''size'' of Inl e \<Rightarrow> ([], Some e) | Inr z \<Rightarrow>
           (case get_part_field part ''url'' of Inl e \<Rightarrow> ([], Some e) | Inr u \<Rightarrow>
              if truthy t \<and> truthy z \<and> truthy u
              then (case urlparse_netloc L (the u) of
                      Inl e \<Rightarrow> ([], Some e)
                    | Inr netloc \<Rightarrow>
                        if netloc \<noteq> []
                        then ([''<enclosure url=\"'' @ the u @ ''\" length=\"'' @ the z @ ''\" type=\"'' @ the t @ ''\" />''], None)
                        else ([], None))
              else ([], None)))))"
  by (simp add: enclosure_def truthy_def split: sum.splits option.splits)

lemma notice_relative: "enclosure lib0 (notice ''image/png'' ''../x.png'') = ([], None)"
  by code_simp

text \<open>
  C6, as amended. \<^verbatim>\<open>get_part_field\<close> takes the first line whose lower-case form starts with
  the label and returns what follows its first colon, stripped (it raises \<open>IndexError\<close>
  when that line has no colon, and returns \<open>None\<close> when there is no such line). For a
  segment after a delimiter, an enclosure is printed if and only if the segment contains
  the marker text, the scan returns a nonempty value for each of type, size and url, and
  the URL has a nonempty network location; the enclosure then carries these three values.
\<close>

theorem enclosure_emitted:
  "get_part_field part name =
     (case find (\<lambda>l. startswith (lower l) name) (readlines part) of
        None \<Rightarrow> Inr None
      | Some l \<Rightarrow>
          if CHR '':'' \<in> set l then Inr (Some (strip (tl (dropWhile (\<lambda>c. c \<noteq> CHR '':'') l))))
          else Inl IndexError) \<and>
   (contains part ''A non-text attachment was scrubbed'' \<and>
    get_part_field part ''type'' = Inr (Some t) \<and> t \<noteq> [] \<and>
    get_part_field part ''size'' = Inr (Some z) \<and> z \<noteq> [] \<and>
    get_part_field part ''url'' = Inr (Some u) \<and> u \<noteq> [] \<and>
    urlparse_netloc L u = Inr n \<and> n \<noteq> [] \<longrightarrow>
      enclosure L part =
        ([''<enclosure url=\"'' @ u @ ''\" length=\"'' @ z @ ''\" type=\"'' @ t @ ''\" />''], None)) \<and>
   (fst (enclosure L part) \<noteq> [] \<longrightarrow>
      contains part ''A non-text attachment was scrubbed'' \<and>
      (\<exists>t z u n.
         get_part_field part ''type'' = Inr (Some t) \<and> t \<noteq> [] \<and>
         get_part_field part ''size'' = Inr (Some z) \<and> z \<noteq> [] \<and>
         get_part_field part ''url'' = Inr (Some u) \<and> u \<noteq> [] \<and>
         urlparse_netloc L u = Inr n \<and> n \<noteq> []))"
proof -
  have a: "get_part_field part name =
     (case find (\<lambda>l. startswith (lower l) name) (readlines part) of
        None \<Rightarrow> Inr None
      | Some l \<Rightarrow>
          if CHR '':'' \<in> set l then Inr (Some (strip (tl (dropWhile (\<lambda>c. c \<noteq> CHR '':'') l))))
          else Inl IndexError)"
    unfolding get_part_field_def by (rule scan_lines_find)
  have b: "contains part ''A non-text attachment was scrubbed'' \<and>
    get_part_field part ''type'' = Inr (Some t) \<and> t \<noteq> [] \<and>
    get_part_field part ''size'' = Inr (Some z) \<and> z \<noteq> [] \<and>
    get_part_field part ''url'' = Inr (Some u) \<and> u \<noteq> [] \<and>
    urlparse_netloc L u = Inr n \<and> n \<noteq> [] \<Longrightarrow>
      enclosure L part =
        ([''<enclosure url=\"'' @ u @ ''\" length=\"'' @ z @ ''\" type=\"'' @ t @ ''\" />''], None)"
    by (simp add: enclosure_cases truthy_def)
  have c: "fst (enclosure L part) \<noteq> [] \<Longrightarrow>
      contains part ''A non-text attachment was scrubbed'' \<and>
      (\<exists>t z u n.
         get_part_field part ''type'' = Inr (Some t) \<and> t \<noteq> [] \<and>
         get_part_field part ''size'' = Inr (Some z) \<and> z \<noteq> [] \<and>
         get_part_field part ''url'' = Inr (Some u) \<and> u \<noteq> [] \<and>
         urlparse_netloc L u = Inr n \<and> n \<noteq> [])"
    unfolding enclosure_cases truthy_def
    by (auto split: if_splits sum.splits option.splits)
  from a b c show ?thesis by blast
qed

text \<open>
  The notice with \<^verbatim>\<open>Type: image/png\<close>, \<^verbatim>\<open>Size: 12345 bytes\<close> and
  \<^verbatim>\<open>Url: http://example.org/x.png\<close> gives one enclosure; with \<^verbatim>\<open>Url: ../x.png\<close> it gives none.
\<close>

theorem enclosure_emitted_witness:
  "enclosure lib0 (notice ''image/png'' ''http://example.org/x.png'') =
     ([''<enclosure url=\"http://example.org/x.png\" length=\"12345 bytes\" type=\"image/png\" />''], None) \<and>
   enclosure lib0 (notice ''image/png'' ''../x.png'') = ([], None) \<and>
   get_part_field (notice ''image/png'' ''../x.png'') ''url'' = Inr (Some ''../x.png'')"
proof -
  have g: "contains (notice ''image/png'' ''http://example.org/x.png'') ''A non-text attachment was scrubbed''"
    "get_part_field (notice ''image/png'' ''http://example.org/x.png'') ''type'' = Inr (Some ''image/png'')"
    "get_part_field (notice ''image/png'' ''http://example.org/x.png'') ''size'' = Inr (Some ''12345 bytes'')"
    "get_part_field (notice ''image/png'' ''http://example.org/x.png'') ''url'' = Inr (Some ''http://example.org/x.png'')"
    "urlparse_netloc lib0 ''http://example.org/x.png'' = Inr ''example.org''"
    by code_simp+
  have r: "get_part_field (notice ''image/png'' ''../x.png'') ''url'' = Inr (Some ''../x.png'')"
    by code_simp
  show ?thesis
    using enclosure_emitted [of "notice ''image/png'' ''http://example.org/x.png''" "''type''"
        "''image/png''" "''12345 bytes''" "''http://example.org/x.png''" lib0 "''example.org''"]
      g r notice_relative
    by simp
qed

text \<open>
  C6 as stated fails: in a notice whose \<^verbatim>\<open>Type:\<close> line has nothing after the colon the scan
  finds all three labels and the URL has a network location, but the empty type is
  false in \<^verbatim>\<open>if mime_type and size and url\<close> and no enclosure is printed.
\<close>

theorem enclosure_empty_value_counterexample:
  "contains (notice [] ''http://example.org/x.png'') ''A non-text attachment was scrubbed'' \<and>
   get_part_field (notice [] ''http://example.org/x.png'') ''type'' = Inr (Some []) \<and>
   get_part_field (notice [] ''http://example.org/x.png'') ''size'' = Inr (Some ''12345 bytes'') \<and>
   get_part_field (notice [] ''http://example.org/x.png'') ''url'' = Inr (Some ''http://example.org/x.png'') \<and>
   urlparse_netloc lib0 ''http://example.org/x.png'' = Inr ''example.org'' \<and>
   enclosure lib0 (notice [] ''http://example.org/x.png'') = ([], None)"
  by code_simp

section \<open>Escaping\<close>

lemma replace_Nil: "old \<noteq> [] \<Longrightarrow> replace [] old new = []"
  by (simp add: replace.simps)

lemma replace_char_Cons:
  "replace (c # cs) [x] new = (if c = x then new else [c]) @ replace cs [x] new"
  by (subst replace.simps) simp

lemma replace_char_concat: "replace s [x] new = concat (map (\<lambda>c. if c = x then new else [c]) s)"
  by (induction s) (simp_all add: replace_Nil replace_char_Cons)

lemma replace_char_append: "replace (s @ t) [x] new = replace s [x] new @ replace t [x] new"
  by (simp add: replace_char_concat)

lemma cgi_escape_Nil: "cgi_escape [] = []"
  by (simp add: cgi_escape_def replace_Nil)

lemma cgi_escape_Cons: "cgi_escape (c # cs) = escape_char c @ cgi_escape cs"
  by (simp add: cgi_escape_def escape_char_def replace_char_Cons replace_char_append replace_Nil)

lemma cgi_escape_concat: "cgi_escape s = concat (map escape_char s)"
  by (induction s) (simp_all add: cgi_escape_Nil cgi_escape_Cons)

lemma markup_safe_cgi_escape: "markup_safe (cgi_escape s)"
  by (induction s) (simp_all add: cgi_escape_Nil cgi_escape_Cons escape_char_def)

lemma cgi_escape_keeps_quote: "DQUOTE \<in> set s \<Longrightarrow> DQUOTE \<in> set (cgi_escape s)"
  by (induction s) (auto simp: cgi_escape_Nil cgi_escape_Cons escape_char_def)


lemma andthen_lines: "set (fst (andthen p q)) \<subseteq> set (fst p) \<union> set (fst q)"
  by (auto simp: andthen_def split: option.splits)

lemma andthen_all:
  "(\<forall>l\<in>set (fst p). P l) \<Longrightarrow> (\<forall>l\<in>set (fst q). P l) \<Longrightarrow> \<forall>l\<in>set (fst (andthen p q)). P l"
  using andthen_lines [of p q] by blast

lemma escaped_elementI: "escaped_element a b (a @ cgi_escape v @ b)"
  by (auto simp: escaped_element_def)

lemma escaped_element_other: "\<not> prefix a l \<Longrightarrow> escaped_element a b l"
  by (simp add: escaped_element_def)

lemma fixed_lines_escaped:
  "escaped_fields (''<pubDate>'' @ cgi_escape v @ ''</pubDate>'')"
  "escaped_fields (''<author>'' @ cgi_escape v @ ''</author>'')"
  "escaped_fields (''<language>'' @ cgi_escape v @ ''</language>'')"
  "escaped_fields (''<guid isPermaLink=\"false\">'' @ cgi_escape v @ ''</guid>'')"
  "escaped_fields (''<title>'' @ x)"
  "escaped_fields (''<description>'' @ x)"
  "escaped_fields (''<link>'' @ x)"
  "escaped_fields (''<enclosure url=\"'' @ x)"
  "escaped_fields ''<item>''" "escaped_fields ''</item>''"
  "escaped_fields ''</channel>''" "escaped_fields ''</rss>''"
  "escaped_fields ''<channel>''" "escaped_fields ''<rss version=\"2.0\">''"
  "escaped_fields ''<?xml version=\"1.0\" encoding=\"UTF-8\" ?>''"
  unfolding escaped_fields_def
  using escaped_elementI [of "''<pubDate>''" "''</pubDate>''" v]
    escaped_elementI [of "''<author>''" "''</author>''" v]
    escaped_elementI [of "''<language>''" "''</language>''" v]
    escaped_elementI [of "''<guid isPermaLink=\"false\">''" "''</guid>''" v]
  by (simp_all add: escaped_element_other)

lemmas fixed_lines_escaped_cons = fixed_lines_escaped [unfolded append.simps]

lemma channel_pubdate_escaped: "escaped_fields (channel_pubdate L d)"
  by (simp add: channel_pubdate_def fixed_lines_escaped_cons split: option.splits)

lemma author_lines_escaped: "\<forall>l\<in>set (author_lines a). escaped_fields l"
  by (auto simp: author_lines_def fixed_lines_escaped_cons split: option.splits)

lemma pubdate_lines_escaped: "\<forall>l\<in>set (pubdate_lines d). escaped_fields l"
  by (auto simp: pubdate_lines_def fixed_lines_escaped_cons split: option.splits)

lemma guid_lines_escaped: "\<forall>l\<in>set (guid_lines g). escaped_fields l"
  by (auto simp: guid_lines_def fixed_lines_escaped_cons split: option.splits)

section \<open>The shape of the printed lines\<close>

lemma fst_andthen: "fst (andthen p q) = fst p @ (if snd p = None then fst q else [])"
  by (simp add: andthen_def split: option.splits)

lemma snd_andthen: "snd (andthen p q) = (if snd p = None then snd q else snd p)"
  by (simp add: andthen_def split: option.splits)

lemma opens_with_mono: "opens_with ps l \<Longrightarrow> set ps \<subseteq> set qs \<Longrightarrow> opens_with qs l"
  by (auto simp: opens_with_def)

lemma opens_withI: "p \<in> set ps \<Longrightarrow> opens_with ps (p @ x)"
  unfolding opens_with_def by (rule bexI [of _ p]) simp_all

lemma author_lines_open: "\<forall>l\<in>set (author_lines a). opens_with [''<author>''] l"
  using opens_withI [of "''<author>''" "[''<author>'']"]
  by (auto simp: author_lines_def split: option.splits)

lemma pubdate_lines_open: "\<forall>l\<in>set (pubdate_lines d). opens_with [''<pubDate>''] l"
  using opens_withI [of "''<pubDate>''" "[''<pubDate>'']"]
  by (auto simp: pubdate_lines_def split: option.splits)

lemma guid_lines_open: "\<forall>l\<in>set (guid_lines g). opens_with [''<guid''] l"
  using opens_withI [of "''<guid''" "[''<guid'']"]
  by (auto simp: guid_lines_def split: option.splits)

lemma item_link_lines:
  "fst (item_link url tm n) = [] \<or> (\<exists>x. fst (item_link url tm n) = [''<link>'' @ x])"
  by (cases "strftime_Y_B tm") (simp_all add: item_link_def)

lemma subject_lines_lines:
  "\<forall>l\<in>set (fst (subject_lines L url d s)). (\<exists>x. l = ''<title>'' @ x) \<or> (\<exists>x. l = ''<link>'' @ x)"
proof (cases s)
  case None
  then show ?thesis by (simp add: subject_lines_def)
next
  case (Some x)
  show ?thesis
  proof (cases "x = []")
    case True
    with Some show ?thesis by (simp add: subject_lines_def)
  next
    case False
    show ?thesis
    proof (cases "decode_header_str L (cgi_escape x)")
      case (Inl e)
      with Some False show ?thesis by (simp add: subject_lines_def)
    next
      case (Inr title)
      define rest where "rest = (case d of None \<Rightarrow> ([], None)
         | Some tm \<Rightarrow> (case subject_match title of None \<Rightarrow> ([], None) | Some n \<Rightarrow> item_link url tm n))"
      have eq: "subject_lines L url d s = andthen ([''<title>'' @ title @ ''</title>''], None) rest"
        using Some False Inr by (simp add: subject_lines_def rest_def)
      have r: "fst rest = [] \<or> (\<exists>x. fst rest = [''<link>'' @ x])"
        unfolding rest_def using item_link_lines by (simp split: option.splits)
      have "\<forall>l\<in>set (fst ([''<title>'' @ title @ ''</title>''], None :: error option)).
          (\<exists>x. l = ''<title>'' @ x) \<or> (\<exists>x. l = ''<link>'' @ x)"
        by simp
      moreover have "\<forall>l\<in>set (fst rest). (\<exists>x. l = ''<title>'' @ x) \<or> (\<exists>x. l = ''<link>'' @ x)"
        using r by auto
      ultimately show ?thesis unfolding eq by (rule andthen_all)
    qed
  qed
qed

lemma subject_lines_open: "\<forall>l\<in>set (fst (subject_lines L url d s)). opens_with [''<title>'', ''<link>''] l"
  using subject_lines_lines [of L url d s]
    opens_withI [of "''<title>''" "[''<title>'', ''<link>'']"]
    opens_withI [of "''<link>''" "[''<title>'', ''<link>'']"]
  by (metis list.set_intros(1) list.set_intros(2))

lemma enclosure_lines:
  "fst (enclosure L part) = [] \<or> (\<exists>x. fst (enclosure L part) = [''<enclosure url=\"'' @ x])"
proof (cases "fst (enclosure L part) = []")
  case True
  then show ?thesis by simp
next
  case False
  obtain t where t: "get_part_field part ''type'' = Inr t"
    using False by (cases "get_part_field part ''type''") (simp_all add: enclosure_cases)
  obtain z where z: "get_part_field part ''size'' = Inr z"
    using False t by (cases "get_part_field part ''size''") (simp_all add: enclosure_cases)
  obtain u where u: "get_part_field part ''url'' = Inr u"
    using False t z by (cases "get_part_field part ''url''") (simp_all add: enclosure_cases)
  obtain n where n: "urlparse_netloc L (the u) = Inr n"
    using False t z u
    by (cases "urlparse_netloc L (the u)") (simp_all add: enclosure_cases split: if_splits)
  have "fst (enclosure L part) =
      [''<enclosure url=\"'' @ (the u @ ''\" length=\"'' @ the z @ ''\" type=\"'' @ the t @ ''\" />'')]"
    using False t z u n by (simp add: enclosure_cases split: if_splits)
  then show ?thesis by blast
qed

lemma enclosures_open: "\<forall>l\<in>set (fst (enclosures L parts)). opens_with [''<enclosure url=\"''] l"
proof (induction parts)
  case Nil
  show ?case by simp
next
  case (Cons part parts)
  have "\<forall>l\<in>set (fst (enclosure L part)). opens_with [''<enclosure url=\"''] l"
    using enclosure_lines [of L part] opens_withI [of "''<enclosure url=\"''" "[''<enclosure url=\"'']"]
    by auto
  then show ?case
    unfolding enclosures.simps using Cons by (rule andthen_all)
qed

lemma body_lines_open:
  "\<forall>l\<in>set (fst (body_lines L p)). opens_with [''<description>'', ''<enclosure url=\"''] l"
proof (cases p)
  case Multipart
  then show ?thesis by (simp add: body_lines_def)
next
  case (Text body)
  show ?thesis
  proof (cases "map strip (re_split True [] body)")
    case Nil
    with Text show ?thesis by (simp add: body_lines_def)
  next
    case (Cons first rest)
    define d where "d = ''<description>'' @ (''<![CDATA['' @ replace first [NL] ''<br/>'' @ '']]></description>'')"
    have eq: "body_lines L p = andthen ([d], None) (enclosures L rest)"
      using Text Cons by (simp add: body_lines_def d_def)
    have "opens_with [''<description>'', ''<enclosure url=\"''] d"
      unfolding d_def by (rule opens_withI) simp
    then have "\<forall>l\<in>set (fst ([d], None :: error option)).
        opens_with [''<description>'', ''<enclosure url=\"''] l"
      by simp
    moreover have "\<forall>l\<in>set (fst (enclosures L rest)).
        opens_with [''<description>'', ''<enclosure url=\"''] l"
      using enclosures_open [of L rest] opens_with_mono by fastforce
    ultimately show ?thesis unfolding eq by (rule andthen_all)
  qed
qed

lemma other_openers_escaped:
  assumes "opens_with [''<title>'', ''<link>'', ''<description>'', ''<enclosure url=\"''] l"
  shows "escaped_fields l"
proof -
  from assms have "prefix ''<title>'' l \<or> prefix ''<link>'' l \<or> prefix ''<description>'' l \<or>
      prefix ''<enclosure url=\"'' l"
    by (simp add: opens_with_def)
  then show ?thesis
  proof (elim disjE)
    assume "prefix ''<title>'' l"
    then obtain x where "l = ''<title>'' @ x" by (rule prefixE)
    then show ?thesis by (simp only: fixed_lines_escaped(5))
  next
    assume "prefix ''<link>'' l"
    then obtain x where "l = ''<link>'' @ x" by (rule prefixE)
    then show ?thesis by (simp only: fixed_lines_escaped(7))
  next
    assume "prefix ''<description>'' l"
    then obtain x where "l = ''<description>'' @ x" by (rule prefixE)
    then show ?thesis by (simp only: fixed_lines_escaped(6))
  next
    assume "prefix ''<enclosure url=\"'' l"
    then obtain x where "l = ''<enclosure url=\"'' @ x" by (rule prefixE)
    then show ?thesis by (simp only: fixed_lines_escaped(8))
  qed
qed

lemma subject_lines_escaped: "\<forall>l\<in>set (fst (subject_lines L url d s)). escaped_fields l"
proof
  fix l
  assume "l \<in> set (fst (subject_lines L url d s))"
  then have "opens_with [''<title>'', ''<link>''] l" using subject_lines_open by blast
  then have "opens_with [''<title>'', ''<link>'', ''<description>'', ''<enclosure url=\"''] l"
    by (rule opens_with_mono) simp
  then show "escaped_fields l" by (rule other_openers_escaped)
qed

lemma body_lines_escaped: "\<forall>l\<in>set (fst (body_lines L p)). escaped_fields l"
proof
  fix l
  assume "l \<in> set (fst (body_lines L p))"
  then have "opens_with [''<description>'', ''<enclosure url=\"''] l" using body_lines_open by blast
  then have "opens_with [''<title>'', ''<link>'', ''<description>'', ''<enclosure url=\"''] l"
    by (rule opens_with_mono) simp
  then show "escaped_fields l" by (rule other_openers_escaped)
qed

lemma render_item_escaped: "\<forall>l\<in>set (fst (render_item L url r m)). escaped_fields l"
proof -
  have h: "\<forall>l\<in>set (fst ((if \<not> r then [channel_pubdate L (mail_date m)] else []) @
        [''<item>''] @ author_lines (mail_from m) @ pubdate_lines (mail_date m), None :: error option)).
      escaped_fields l"
  proof
    fix l
    assume "l \<in> set (fst ((if \<not> r then [channel_pubdate L (mail_date m)] else []) @
        [''<item>''] @ author_lines (mail_from m) @ pubdate_lines (mail_date m), None :: error option))"
    then consider "l = channel_pubdate L (mail_date m)" | "l = ''<item>''"
      | "l \<in> set (author_lines (mail_from m))" | "l \<in> set (pubdate_lines (mail_date m))"
      by (cases r) auto
    then show "escaped_fields l"
    proof cases
      case 1
      then show ?thesis by (simp only: channel_pubdate_escaped)
    next
      case 2
      then show ?thesis by (simp only: fixed_lines_escaped(9))
    next
      case 3
      then show ?thesis using author_lines_escaped by blast
    next
      case 4
      then show ?thesis using pubdate_lines_escaped by blast
    qed
  qed
  have g: "\<forall>l\<in>set (fst (guid_lines (mail_message_id m), None :: error option)). escaped_fields l"
    using guid_lines_escaped by simp
  have c: "\<forall>l\<in>set (fst ([''</item>''], None :: error option)). escaped_fields l"
    using fixed_lines_escaped(10) by simp
  show ?thesis
    unfolding render_item_def
    by (intro andthen_all h subject_lines_escaped g body_lines_escaped c)
qed

lemma print_items_escaped: "\<forall>l\<in>set (fst (print_items L url r ms)). escaped_fields l"
proof (induction ms arbitrary: r)
  case Nil
  show ?case by simp
next
  case (Cons m ms)
  show ?case
    unfolding print_items.simps by (rule andthen_all [OF render_item_escaped Cons])
qed

lemma channel_head_lines:
  "fst (channel_head a) =
     [''<?xml version=\"1.0\" encoding=\"UTF-8\" ?>'', ''<rss version=\"2.0\">'', ''<channel>'',
      ''<language>'' @ cgi_escape ''ja-JP'' @ ''</language>''] @
     (case get_title a of
        Inl e \<Rightarrow> []
      | Inr v \<Rightarrow>
          (case v of
             None \<Rightarrow> []
           | Some t \<Rightarrow>
               if t = [] then []
               else [''<title>'' @ cgi_escape t @ ''</title>'',
                     ''<description>'' @ cgi_escape t @ ''</description>'']) @
          [''<link>'' @ cgi_escape (archive_url a) @ ''</link>''])"
  by (simp add: channel_head_def andthen_def truthy_def split: sum.splits option.splits)

lemma channel_head_error: "snd (channel_head a) = (case get_title a of Inl e \<Rightarrow> Some e | Inr v \<Rightarrow> None)"
  by (simp add: channel_head_def andthen_def split: sum.splits)

lemma channel_head_escaped: "\<forall>l\<in>set (fst (channel_head a)). escaped_fields l"
  unfolding channel_head_lines
  using fixed_lines_escaped(3) [of "''ja-JP''"] fixed_lines_escaped(5,6,7,13,14,15)
  by (auto split: sum.splits option.splits)

lemma channel_head_channel_escaped: "\<forall>l\<in>set (fst (channel_head a)). escaped_channel_fields l"
proof -
  have t: "escaped_channel_fields (''<title>'' @ cgi_escape v @ ''</title>'')"
    "escaped_channel_fields (''<description>'' @ cgi_escape v @ ''</description>'')"
    "escaped_channel_fields (''<link>'' @ cgi_escape v @ ''</link>'')"
    "escaped_channel_fields (''<language>'' @ x)"
    "escaped_channel_fields ''<channel>''" "escaped_channel_fields ''<rss version=\"2.0\">''"
    "escaped_channel_fields ''<?xml version=\"1.0\" encoding=\"UTF-8\" ?>''" for v x
    unfolding escaped_channel_fields_def
    using escaped_elementI [of "''<title>''" "''</title>''" v]
      escaped_elementI [of "''<description>''" "''</description>''" v]
      escaped_elementI [of "''<link>''" "''</link>''" v]
    by (simp_all add: escaped_element_other)
  show ?thesis
    unfolding channel_head_lines using t by (auto split: sum.splits option.splits)
qed

lemma printrss_escaped: "\<forall>l\<in>set (fst (printrss L a mails)). escaped_fields l"
proof -
  have c: "\<forall>l\<in>set (fst ([''</channel>'', ''</rss>''], None :: error option)). escaped_fields l"
    using fixed_lines_escaped(11,12) by simp
  show ?thesis
    unfolding printrss_def
    by (intro andthen_all channel_head_escaped print_items_escaped c)
qed

lemma printrss_head: "prefix (fst (channel_head a)) (fst (printrss L a mails))"
  by (simp add: printrss_def fst_andthen)

lemma andthen_assoc: "andthen p (andthen q r) = andthen (andthen p q) r"
  by (cases p; cases q; cases r) (auto simp: andthen_def split: option.splits)

lemma render_item_split:
  "render_item L url r m =
     andthen ((if \<not> r then [channel_pubdate L (mail_date m)] else []) @ [''<item>''] @
              author_lines (mail_from m) @ pubdate_lines (mail_date m), None)
             (andthen (item_body L url m) ([''</item>''], None))"
  unfolding render_item_def item_body_def by (simp only: andthen_assoc)

lemma render_item_lines:
  "fst (render_item L url r m) =
     (if \<not> r then [channel_pubdate L (mail_date m)] else []) @ [''<item>''] @
     author_lines (mail_from m) @ pubdate_lines (mail_date m) @ fst (item_body L url m) @
     (if snd (item_body L url m) = None then [''</item>''] else [])"
  unfolding render_item_split by (simp add: fst_andthen)

lemma render_item_error: "snd (render_item L url r m) = snd (item_body L url m)"
  unfolding render_item_split by (simp add: snd_andthen)

lemma render_item_flag:
  "render_item L url False m =
     (channel_pubdate L (mail_date m) # fst (render_item L url True m), snd (render_item L url True m))"
  by (simp add: prod_eq_iff render_item_lines render_item_error)

lemma item_body_open:
  "\<forall>l\<in>set (fst (item_body L url m)).
     opens_with [''<title>'', ''<link>'', ''<guid'', ''<description>'', ''<enclosure url=\"''] l"
proof -
  let ?ps = "[''<title>'', ''<link>'', ''<guid'', ''<description>'', ''<enclosure url=\"'']"
  have s: "\<forall>l\<in>set (fst (subject_lines L url (parsed_date L (mail_date m)) (mail_subject m))). opens_with ?ps l"
    using subject_lines_open opens_with_mono by fastforce
  have g: "\<forall>l\<in>set (fst (guid_lines (mail_message_id m), None :: error option)). opens_with ?ps l"
    using guid_lines_open opens_with_mono by fastforce
  have b: "\<forall>l\<in>set (fst (body_lines L (mail_payload m))). opens_with ?ps l"
    using body_lines_open opens_with_mono by fastforce
  show ?thesis
    unfolding item_body_def by (intro andthen_all s g b)
qed

lemma opens_with_not_prefix:
  assumes "opens_with ps l" and "\<forall>p\<in>set ps. \<not> prefix p q \<and> \<not> prefix q p"
  shows "\<not> prefix q l"
  using assms prefix_same_cases unfolding opens_with_def by blast

lemma opens_with_not_eq:
  assumes "opens_with ps l" and "\<forall>p\<in>set ps. \<not> prefix p q"
  shows "l \<noteq> q"
  using assms unfolding opens_with_def by blast

section \<open>The pubDate of an item\<close>

lemma filter_none: "\<forall>l\<in>set xs. opens_with ps l \<Longrightarrow> \<forall>p\<in>set ps. \<not> prefix p q \<and> \<not> prefix q p \<Longrightarrow>
    filter (prefix q) xs = []"
  using opens_with_not_prefix by (fastforce simp: filter_empty_conv)

lemma filter_pubdate_author: "filter (prefix ''<pubDate>'') (author_lines a) = []"
  using author_lines_open by (rule filter_none) simp

lemma filter_pubdate_body: "filter (prefix ''<pubDate>'') (fst (item_body L url m)) = []"
  using item_body_open by (rule filter_none) simp

lemma filter_pubdate_pubdate: "filter (prefix ''<pubDate>'') (pubdate_lines d) = pubdate_lines d"
  by (simp add: pubdate_lines_def split: option.splits)

lemma render_text_mail:
  "render_item lib0 ''http://lists.example.org/pipermail/dev/'' True (text_mail ''hello'') =
     ([''<item>'', ''<description><![CDATA[hello]]></description>'', ''</item>''], None)"
  by code_simp

text \<open>
  C4, as amended. Inside an item the loop prints one pubDate element, holding the escaped
  text of the date header, when the header is present and not empty, and no pubDate
  element when it is absent or empty. The item is the same whether or not the message
  also gave the channel its pubDate: with \<^verbatim>\<open>pubdate_rendered\<close> false the pass prints the
  channel's line and then exactly what it prints with the flag true.
\<close>

theorem item_pubdate:
  "filter (prefix ''<pubDate>'') (fst (render_item L url True m)) =
     (case mail_date m of
        Some d \<Rightarrow> if d \<noteq> [] then [''<pubDate>'' @ cgi_escape d @ ''</pubDate>''] else []
      | None \<Rightarrow> []) \<and>
   render_item L url False m =
     (channel_pubdate L (mail_date m) # fst (render_item L url True m),
      snd (render_item L url True m))"
proof -
  have "filter (prefix ''<pubDate>'') (fst (render_item L url True m)) = pubdate_lines (mail_date m)"
    by (simp add: render_item_lines filter_pubdate_author filter_pubdate_body filter_pubdate_pubdate)
  then show ?thesis
    by (simp add: pubdate_lines_def render_item_flag)
qed

theorem item_pubdate_witness:
  "filter (prefix ''<pubDate>'')
     (fst (render_item lib0 ''http://lists.example.org/pipermail/dev/'' True mail42)) =
     [''<pubDate>Wed, 1 Apr 2020 10:00:00 +0000</pubDate>''] \<and>
   filter (prefix ''<pubDate>'')
     (fst (render_item lib0 ''http://lists.example.org/pipermail/dev/'' True (text_mail ''hello''))) = []"
proof -
  have e: "cgi_escape ''Wed, 1 Apr 2020 10:00:00 +0000'' = ''Wed, 1 Apr 2020 10:00:00 +0000''"
    by code_simp
  show ?thesis
    using item_pubdate [of lib0 "''http://lists.example.org/pipermail/dev/''" mail42]
      item_pubdate [of lib0 "''http://lists.example.org/pipermail/dev/''" "text_mail ''hello''"]
    by (simp add: mail42_def text_mail_def e)
qed

text \<open>
  C4 as stated fails: a message without a date header is rendered with no pubDate in its
  item; the build timestamp is not printed there.
\<close>

theorem item_pubdate_counterexample:
  "render_item lib0 ''http://lists.example.org/pipermail/dev/'' True (text_mail ''hello'') =
     ([''<item>'', ''<description><![CDATA[hello]]></description>'', ''</item>''], None) \<and>
   formatdate lib0 = ''Sat, 07 Nov 2026 12:00:00 -0000'' \<and>
   ''<pubDate>Sat, 07 Nov 2026 12:00:00 -0000</pubDate>'' \<notin>
     set (fst (render_item lib0 ''http://lists.example.org/pipermail/dev/'' True (text_mail ''hello'')))"
  by (simp add: render_text_mail) (simp add: lib0_def)

section \<open>The link of an item\<close>




lemma subject_match_Some_shape:
  assumes "subject_match s = Some ds"
  shows "\<exists>tag rest. s = ''['' @ tag @ '' '' @ ds @ '']'' @ rest \<and> tag \<noteq> [] \<and> (\<forall>c\<in>set tag. isword c) \<and>
     ds \<noteq> [] \<and> (\<forall>c\<in>set ds. isdecimal c)"
proof -
  from assms obtain r where s: "s = CHR ''['' # r"
    by (cases s) (auto simp: subject_match_def Let_def split: if_splits)
  define r1 where "r1 = dropWhile isword r"
  define r2 where "r2 = drop 1 r1"
  define r3 where "r3 = dropWhile isdecimal r2"
  from assms s have c: "r1 \<noteq> r" "prefix '' '' r1" "r3 \<noteq> r2" "prefix '']'' r3" "ds = takeWhile isdecimal r2"
    by (auto simp: subject_match_def Let_def r1_def r2_def r3_def split: if_splits)
  have a: "r = takeWhile isword r @ r1" by (simp add: r1_def)
  have b: "r1 = CHR '' '' # r2" using c(2) by (cases r1) (auto simp: r2_def)
  have d: "r2 = ds @ r3" by (simp add: c(5) r3_def)
  obtain rest where e: "r3 = CHR '']'' # rest" using c(4) by (cases r3) auto
  have "takeWhile isword r \<noteq> []" using c(1) a by auto
  moreover have "ds \<noteq> []" using c(3) d by auto
  moreover have "\<forall>c\<in>set (takeWhile isword r). isword c" by (auto dest: set_takeWhileD)
  moreover have "\<forall>c\<in>set ds. isdecimal c" unfolding c(5) by (auto dest: set_takeWhileD)
  moreover have "s = ''['' @ takeWhile isword r @ '' '' @ ds @ '']'' @ rest"
    using s a b d e by simp
  ultimately show ?thesis by blast
qed


lemma channel_pubdate_open: "opens_with [''<pubDate>''] (channel_pubdate L d)"
  using opens_withI [of "''<pubDate>''" "[''<pubDate>'']"]
  by (simp add: channel_pubdate_def split: option.splits)







section \<open>Escaping in the document\<close>

lemma printrss_mail42:
  "printrss lib0 (page_with_title (Some ''Dev & Ops'')) [mail42] =
     ([''<?xml version=\"1.0\" encoding=\"UTF-8\" ?>'', ''<rss version=\"2.0\">'', ''<channel>'',
       ''<language>ja-JP</language>'', ''<title>Dev &amp; Ops</title>'',
       ''<description>Dev &amp; Ops</description>'',
       ''<link>http://lists.example.org/pipermail/dev/</link>'',
       ''<pubDate>Wed, 1 Apr 2020 10:00:00 +0000</pubDate>'',
       ''<item>'', ''<author>jane@example.org</author>'',
       ''<pubDate>Wed, 1 Apr 2020 10:00:00 +0000</pubDate>'',
       ''<title>[project 42] Fix bug</title>'',
       ''<link>http://lists.example.org/pipermail/dev/2020-April/000041.html</link>'',
       ''<guid isPermaLink=\"false\">abc123@host</guid>'',
       ''<description><![CDATA[hello]]></description>'', ''</item>'',
       ''</channel>'', ''</rss>''], None)"
  by code_simp

lemma printrss_mail_quote:
  "printrss lib0 (page_with_title None) [mail_quote] =
     ([''<?xml version=\"1.0\" encoding=\"UTF-8\" ?>'', ''<rss version=\"2.0\">'', ''<channel>'',
       ''<language>ja-JP</language>'',
       ''<link>http://lists.example.org/pipermail/dev/</link>'',
       ''<pubDate>Sat, 07 Nov 2026 12:00:00 -0000</pubDate>'',
       ''<item>'', ''<author>\"Bob\" &lt;bob@example.org&gt;</author>'',
       ''<description><![CDATA[see attachment]]></description>'',
       ''<enclosure url=\"http://example.org/get?a=1&b=2\" length=\"12345 bytes\" type=\"image/png\" />'',
       ''</item>'', ''</channel>'', ''</rss>''], None)"
  by code_simp

text \<open>
  C3, as amended. \<^verbatim>\<open>cgi.escape\<close> replaces \<^verbatim>\<open>&\<close>, \<^verbatim>\<open><\<close> and \<^verbatim>\<open>>\<close> by their entities and keeps every
  other character, the double quote too; its result has no \<^verbatim>\<open><\<close> or \<^verbatim>\<open>>\<close> and no \<^verbatim>\<open>&\<close> but
  those of the entities. In the document every language, pubDate, author and guid
  element holds a text escaped in this way, and so do the title, description and link
  elements of the channel, which head the document. The description of an item is the
  first body segment with its line feeds replaced, inside a CDATA block and not escaped.
  Nothing is said here of the title and link of an item and of the enclosure attributes.
\<close>

theorem printrss_escapes:
  "markup_safe (cgi_escape v) \<and> cgi_escape v = concat (map escape_char v) \<and>
   (\<forall>l\<in>set (fst (printrss L a mails)).
      escaped_element ''<language>'' ''</language>'' l \<and>
      escaped_element ''<pubDate>'' ''</pubDate>'' l \<and>
      escaped_element ''<author>'' ''</author>'' l \<and>
      escaped_element ''<guid isPermaLink=\"false\">'' ''</guid>'' l) \<and>
   prefix (fst (channel_head a)) (fst (printrss L a mails)) \<and>
   (\<forall>l\<in>set (fst (channel_head a)).
      escaped_element ''<title>'' ''</title>'' l \<and>
      escaped_element ''<description>'' ''</description>'' l \<and>
      escaped_element ''<link>'' ''</link>'' l) \<and>
   (\<forall>first rest. map strip (re_split True [] body) = first # rest \<longrightarrow>
      body_lines L (Text body) =
        andthen ([''<description><![CDATA['' @ replace first [NL] ''<br/>'' @ '']]></description>''], None)
                (enclosures L rest))"
proof -
  have a: "\<forall>l\<in>set (fst (printrss L a mails)).
      escaped_element ''<language>'' ''</language>'' l \<and>
      escaped_element ''<pubDate>'' ''</pubDate>'' l \<and>
      escaped_element ''<author>'' ''</author>'' l \<and>
      escaped_element ''<guid isPermaLink=\"false\">'' ''</guid>'' l"
    using printrss_escaped [of L a mails] unfolding escaped_fields_def by blast
  have b: "\<forall>l\<in>set (fst (channel_head a)).
      escaped_element ''<title>'' ''</title>'' l \<and>
      escaped_element ''<description>'' ''</description>'' l \<and>
      escaped_element ''<link>'' ''</link>'' l"
    using channel_head_channel_escaped [of a] unfolding escaped_channel_fields_def by blast
  have c: "\<forall>first rest. map strip (re_split True [] body) = first # rest \<longrightarrow>
      body_lines L (Text body) =
        andthen ([''<description><![CDATA['' @ replace first [NL] ''<br/>'' @ '']]></description>''], None)
                (enclosures L rest)"
    by (simp add: body_lines_def)
  from a b c markup_safe_cgi_escape [of v] cgi_escape_concat [of v] printrss_head [of a L mails]
  show ?thesis by blast
qed

theorem printrss_escapes_witness:
  "cgi_escape ''Dev & Ops'' = ''Dev &amp; Ops'' \<and> markup_safe ''Dev &amp; Ops'' \<and>
   ''<title>Dev &amp; Ops</title>'' \<in> set (fst (printrss lib0 (page_with_title (Some ''Dev & Ops'')) [mail42])) \<and>
   escaped_element ''<author>'' ''</author>'' ''<author>jane@example.org</author>'' \<and>
   ''<author>jane@example.org</author>'' \<in>
     set (fst (printrss lib0 (page_with_title (Some ''Dev & Ops'')) [mail42]))"
proof -
  note t = printrss_escapes [of "''Dev & Ops''" lib0 "page_with_title (Some ''Dev & Ops'')" "[mail42]" "''hello''"]
  have e: "cgi_escape ''Dev & Ops'' = ''Dev &amp; Ops''" by code_simp
  have s: "markup_safe ''Dev &amp; Ops''"
    using t [THEN conjunct1] unfolding e .
  have m: "''<author>jane@example.org</author>'' \<in>
      set (fst (printrss lib0 (page_with_title (Some ''Dev & Ops'')) [mail42]))"
    "''<title>Dev &amp; Ops</title>'' \<in> set (fst (printrss lib0 (page_with_title (Some ''Dev & Ops'')) [mail42]))"
    by (simp_all add: printrss_mail42)
  have "escaped_element ''<author>'' ''</author>'' ''<author>jane@example.org</author>''"
    using t [THEN conjunct2, THEN conjunct2, THEN conjunct1, THEN bspec, OF m(1)] by blast
  with e s m show ?thesis by blast
qed

text \<open>
  C3 as stated fails: a double quote in the sender's name is printed as it is, and the
  URL of an enclosure is printed with its \<^verbatim>\<open>&\<close> not escaped.
\<close>

theorem printrss_raw_quote_counterexample:
  "''<author>\"Bob\" &lt;bob@example.org&gt;</author>'' \<in>
     set (fst (printrss lib0 (page_with_title None) [mail_quote])) \<and>
   ''<enclosure url=\"http://example.org/get?a=1&b=2\" length=\"12345 bytes\" type=\"image/png\" />'' \<in>
     set (fst (printrss lib0 (page_with_title None) [mail_quote])) \<and>
   cgi_escape [DQUOTE] = [DQUOTE]"
proof -
  have "cgi_escape [DQUOTE] = [DQUOTE]" by code_simp
  then show ?thesis by (simp add: printrss_mail_quote)
qed

section \<open>The pubDate of the channel\<close>

lemma outside_items_inner:
  "\<forall>l\<in>set inner. l \<noteq> ''<item>'' \<and> l \<noteq> ''</item>'' \<Longrightarrow>
   outside_items True (inner @ rest) = outside_items True rest"
  by (induction inner) simp_all

lemma outside_items_plain:
  "\<forall>l\<in>set xs. l \<noteq> ''<item>'' \<and> l \<noteq> ''</item>'' \<Longrightarrow>
   outside_items False (xs @ rest) = xs @ outside_items False rest"
  by (induction xs) simp_all

lemma opens_with_plain:
  assumes "\<forall>l\<in>set xs. opens_with ps l"
    and "\<forall>p\<in>set ps. \<not> prefix p ''<item>'' \<and> \<not> prefix p ''</item>''"
  shows "\<forall>l\<in>set xs. l \<noteq> ''<item>'' \<and> l \<noteq> ''</item>''"
  using assms opens_with_not_eq by blast

lemma item_inner_plain:
  "\<forall>l\<in>set (author_lines (mail_from m) @ pubdate_lines (mail_date m) @ fst (item_body L url m)).
     l \<noteq> ''<item>'' \<and> l \<noteq> ''</item>''"
proof -
  have a: "\<forall>l\<in>set (author_lines (mail_from m)). l \<noteq> ''<item>'' \<and> l \<noteq> ''</item>''"
    using author_lines_open by (rule opens_with_plain) simp
  have p: "\<forall>l\<in>set (pubdate_lines (mail_date m)). l \<noteq> ''<item>'' \<and> l \<noteq> ''</item>''"
    using pubdate_lines_open by (rule opens_with_plain) simp
  have b: "\<forall>l\<in>set (fst (item_body L url m)). l \<noteq> ''<item>'' \<and> l \<noteq> ''</item>''"
    using item_body_open by (rule opens_with_plain) simp
  from a p b show ?thesis by auto
qed

lemma render_item_outside_ok:
  assumes "snd (render_item L url True m) = None"
  shows "outside_items False (fst (render_item L url True m) @ rest) = outside_items False rest"
proof -
  let ?inner = "author_lines (mail_from m) @ pubdate_lines (mail_date m) @ fst (item_body L url m)"
  have "fst (render_item L url True m) @ rest = ''<item>'' # ?inner @ (''</item>'' # rest)"
    using assms by (simp add: render_item_lines render_item_error)
  then have "outside_items False (fst (render_item L url True m) @ rest) =
      outside_items True (?inner @ (''</item>'' # rest))"
    by simp
  also have "\<dots> = outside_items True (''</item>'' # rest)"
    using item_inner_plain by (rule outside_items_inner)
  finally show ?thesis by simp
qed

lemma render_item_outside_error:
  assumes "snd (render_item L url True m) \<noteq> None"
  shows "outside_items False (fst (render_item L url True m)) = []"
proof -
  let ?inner = "author_lines (mail_from m) @ pubdate_lines (mail_date m) @ fst (item_body L url m)"
  have "fst (render_item L url True m) = ''<item>'' # ?inner @ []"
    using assms by (simp add: render_item_lines render_item_error)
  then have "outside_items False (fst (render_item L url True m)) = outside_items True (?inner @ [])"
    by simp
  also have "\<dots> = outside_items True []"
    using item_inner_plain by (rule outside_items_inner)
  finally show ?thesis by simp
qed

lemma print_items_outside:
  "(snd (print_items L url True ms) = None \<longrightarrow>
      (\<forall>rest. outside_items False (fst (print_items L url True ms) @ rest) = outside_items False rest)) \<and>
   (snd (print_items L url True ms) \<noteq> None \<longrightarrow>
      outside_items False (fst (print_items L url True ms)) = [])"
proof (induction ms)
  case Nil
  show ?case by simp
next
  case (Cons m ms)
  show ?case
  proof (cases "snd (render_item L url True m) = None")
    case False
    have f: "fst (print_items L url True (m # ms)) = fst (render_item L url True m)"
      using False by (auto simp: fst_andthen)
    have e: "snd (print_items L url True (m # ms)) \<noteq> None"
      using False by (auto simp: snd_andthen)
    have "outside_items False (fst (print_items L url True (m # ms))) = []"
      unfolding f using False by (rule render_item_outside_error)
    with e show ?thesis by blast
  next
    case True
    have f: "fst (print_items L url True (m # ms)) =
        fst (render_item L url True m) @ fst (print_items L url True ms)"
      using True by (simp add: fst_andthen)
    have e: "snd (print_items L url True (m # ms)) = snd (print_items L url True ms)"
      using True by (simp add: snd_andthen)
    have o: "outside_items False (fst (print_items L url True (m # ms)) @ rest) =
        outside_items False (fst (print_items L url True ms) @ rest)" for rest
      unfolding f using render_item_outside_ok [OF True, of "fst (print_items L url True ms) @ rest"]
      by simp
    have o0: "outside_items False (fst (print_items L url True (m # ms))) =
        outside_items False (fst (print_items L url True ms))"
      using o [of "[]"] by simp
    show ?thesis
      unfolding e o o0 using Cons .
  qed
qed

lemma print_items_flag:
  "print_items L url False (m # ms) =
     (channel_pubdate L (mail_date m) # fst (print_items L url True (m # ms)),
      snd (print_items L url True (m # ms)))"
  by (simp add: prod_eq_iff fst_andthen snd_andthen render_item_flag)

lemma channel_head_open:
  "\<forall>l\<in>set (fst (channel_head a)).
     opens_with [''<?xml'', ''<rss'', ''<channel>'', ''<language>'', ''<title>'', ''<description>'', ''<link>''] l"
proof -
  let ?ps = "[''<?xml'', ''<rss'', ''<channel>'', ''<language>'', ''<title>'', ''<description>'', ''<link>'']"
  have o: "opens_with ?ps (''<?xml'' @ x)" "opens_with ?ps (''<rss'' @ x)" "opens_with ?ps (''<channel>'' @ x)"
    "opens_with ?ps (''<language>'' @ x)" "opens_with ?ps (''<title>'' @ x)"
    "opens_with ?ps (''<description>'' @ x)" "opens_with ?ps (''<link>'' @ x)" for x
    by (rule opens_withI, simp)+
  show ?thesis
    unfolding channel_head_lines
    using o(1) [of "'' version=\"1.0\" encoding=\"UTF-8\" ?>''"] o(2) [of "'' version=\"2.0\">''"]
      o(3) [of "[]"] o(4) o(5) o(6) o(7)
    by (auto split: sum.splits option.splits)
qed

lemma channel_pubdate_text:
  "channel_pubdate L d =
     ''<pubDate>'' @
     cgi_escape (case d of Some x \<Rightarrow> if x \<noteq> [] then x else formatdate L | None \<Rightarrow> formatdate L) @
     ''</pubDate>''"
  by (simp add: channel_pubdate_def split: option.splits)

lemma closing_outside:
  "outside_items False [''</channel>'', ''</rss>''] = [''</channel>'', ''</rss>'']"
  by simp

lemma items_outside:
  "filter (prefix ''<pubDate>'')
     (outside_items False (fst (andthen (print_items L url False mails) ([''</channel>'', ''</rss>''], None)))) =
     (case mails of [] \<Rightarrow> [] | m # ms \<Rightarrow> [channel_pubdate L (mail_date m)])"
proof (cases mails)
  case Nil
  then show ?thesis by (simp add: fst_andthen)
next
  case (Cons m ms)
  let ?c = "channel_pubdate L (mail_date m)"
  let ?p = "print_items L url True (m # ms)"
  have c1: "?c \<noteq> ''<item>'' \<and> ?c \<noteq> ''</item>''"
    using channel_pubdate_open [of L "mail_date m"] opens_with_not_eq [of "[''<pubDate>'']" ?c]
    by auto
  have c2: "prefix ''<pubDate>'' ?c"
    by (simp add: channel_pubdate_text)
  have o: "outside_items False (?c # xs) = ?c # outside_items False xs" for xs
    using c1 by simp
  show ?thesis
  proof (cases "snd ?p = None")
    case True
    have "fst (andthen (print_items L url False (m # ms)) ([''</channel>'', ''</rss>''], None)) =
        ?c # (fst ?p @ [''</channel>'', ''</rss>''])"
      unfolding print_items_flag using True by (simp add: fst_andthen)
    moreover have "outside_items False (fst ?p @ [''</channel>'', ''</rss>'']) = [''</channel>'', ''</rss>'']"
      using print_items_outside [of L url "m # ms"] True closing_outside by simp
    ultimately show ?thesis
      using c2 Cons by (simp only: o list.case filter.simps) simp
  next
    case False
    have "fst (andthen (print_items L url False (m # ms)) ([''</channel>'', ''</rss>''], None)) = ?c # fst ?p"
      unfolding print_items_flag using False by (auto simp: fst_andthen)
    moreover have "outside_items False (fst ?p) = []"
      using print_items_outside [of L url "m # ms"] False by blast
    ultimately show ?thesis
      using c2 Cons by (simp only: o list.case filter.simps) simp
  qed
qed

lemma printrss_no_mail:
  "printrss lib0 (page_with_title None) [] =
     ([''<?xml version=\"1.0\" encoding=\"UTF-8\" ?>'', ''<rss version=\"2.0\">'', ''<channel>'',
       ''<language>ja-JP</language>'',
       ''<link>http://lists.example.org/pipermail/dev/</link>'',
       ''</channel>'', ''</rss>''], None)"
  by code_simp

text \<open>
  C7, as amended. The pubDate lines that stand at channel level in the document, outside
  every item, are: none when \<^verbatim>\<open>get_title\<close> raises or when there is no message, and otherwise
  the one line with the escaped date header of the first message, or with the text of
  \<^verbatim>\<open>formatdate()\<close> when that header is absent or empty. No later message adds or changes a
  channel-level pubDate, also when a later message makes \<^verbatim>\<open>printrss\<close> raise.
\<close>

theorem channel_pubdate_once:
  "filter (prefix ''<pubDate>'') (outside_items False (fst (printrss L a mails))) =
     (case get_title a of
        Inl e \<Rightarrow> []
      | Inr v \<Rightarrow>
          (case mails of
             [] \<Rightarrow> []
           | m # ms \<Rightarrow>
               [''<pubDate>'' @
                cgi_escape (case mail_date m of
                              Some d \<Rightarrow> if d \<noteq> [] then d else formatdate L
                            | None \<Rightarrow> formatdate L) @
                ''</pubDate>'']))"
proof -
  let ?h = "fst (channel_head a)"
  have plain: "\<forall>l\<in>set ?h. l \<noteq> ''<item>'' \<and> l \<noteq> ''</item>''"
    using channel_head_open by (rule opens_with_plain) simp
  have nopub: "filter (prefix ''<pubDate>'') ?h = []"
    using channel_head_open by (rule filter_none) simp
  show ?thesis
  proof (cases "get_title a")
    case (Inl e)
    then have "fst (printrss L a mails) = ?h @ []"
      by (simp add: printrss_def fst_andthen channel_head_error)
    then have "outside_items False (fst (printrss L a mails)) = ?h"
      using outside_items_plain [OF plain, of "[]"] by simp
    with nopub Inl show ?thesis by simp
  next
    case (Inr v)
    let ?x = "fst (andthen (print_items L (archive_url a) False mails) ([''</channel>'', ''</rss>''], None))"
    have "fst (printrss L a mails) = ?h @ ?x"
      using Inr by (simp add: printrss_def fst_andthen channel_head_error)
    then have "outside_items False (fst (printrss L a mails)) = ?h @ outside_items False ?x"
      using outside_items_plain [OF plain, of ?x] by simp
    then have "filter (prefix ''<pubDate>'') (outside_items False (fst (printrss L a mails))) =
        filter (prefix ''<pubDate>'') (outside_items False ?x)"
      using nopub by simp
    also have "\<dots> = (case mails of [] \<Rightarrow> [] | m # ms \<Rightarrow> [channel_pubdate L (mail_date m)])"
      by (rule items_outside)
    finally show ?thesis
      using Inr by (simp add: channel_pubdate_text split: list.splits)
  qed
qed

theorem channel_pubdate_once_witness:
  "filter (prefix ''<pubDate>'')
     (outside_items False
        (fst (printrss lib0 (page_with_title None) [text_mail ''first'', mail42]))) =
     [''<pubDate>Sat, 07 Nov 2026 12:00:00 -0000</pubDate>''] \<and>
   filter (prefix ''<pubDate>'')
     (outside_items False
        (fst (printrss lib0 (page_with_title None) [mail42, text_mail ''second'']))) =
     [''<pubDate>Wed, 1 Apr 2020 10:00:00 +0000</pubDate>'']"
proof -
  have e: "cgi_escape ''Sat, 07 Nov 2026 12:00:00 -0000'' = ''Sat, 07 Nov 2026 12:00:00 -0000''"
    "cgi_escape ''Wed, 1 Apr 2020 10:00:00 +0000'' = ''Wed, 1 Apr 2020 10:00:00 +0000''"
    by code_simp+
  have g: "get_title (page_with_title None) = Inr None"
    by (simp add: get_title_def page_with_title_def)
  show ?thesis
    using channel_pubdate_once [of lib0 "page_with_title None" "[text_mail ''first'', mail42]"]
      channel_pubdate_once [of lib0 "page_with_title None" "[mail42, text_mail ''second'']"]
    by (simp add: g e text_mail_def mail42_def lib0_def)
qed

text \<open>
  C7 as stated fails for a run without messages: the channel's pubDate is printed in the
  first pass of the loop over the messages, so a document with no item has none, neither
  a message's date nor the build timestamp.
\<close>

theorem channel_pubdate_no_mail_counterexample:
  "fst (printrss lib0 (page_with_title None) []) =
     [''<?xml version=\"1.0\" encoding=\"UTF-8\" ?>'', ''<rss version=\"2.0\">'', ''<channel>'',
      ''<language>ja-JP</language>'',
      ''<link>http://lists.example.org/pipermail/dev/</link>'',
      ''</channel>'', ''</rss>''] \<and>
   filter (prefix ''<pubDate>'') (fst (printrss lib0 (page_with_title None) [])) = []"
  by (simp add: printrss_no_mail)

end
